(* ===== verification/Prelude.thy ===== *)
theory Prelude
  imports Main "HOL-Library.Multiset"
begin

text \<open>
  Shared vocabulary of the development: the names of the model's basic types, the
  collection \<open>page_simps\<close> into which the component theories put the equations that
  evaluate their operations, and generic facts on lists that the components share:
  the first index of a list satisfying a predicate (the DOM's ``first in tree order''),
  and a loop that updates a list at a sequence of distinct positions (JavaScript's
  \<open>forEach\<close> over a collection of element references).
\<close>

named_theorems page_simps "equations that evaluate the DOM primitives and the controller"

type_synonym ident = string \<comment> \<open>a JavaScript string used as a DOM identifier or class\<close>
type_synonym ptr = nat \<comment> \<open>a reference to an element: its position in tree order\<close>

fun first_index :: "('a \<Rightarrow> bool) \<Rightarrow> 'a list \<Rightarrow> nat option" where
  "first_index P [] = None"
| "first_index P (x # xs) = (if P x then Some 0 else map_option Suc (first_index P xs))"

definition update_each :: "('a \<Rightarrow> 'a) \<Rightarrow> nat list \<Rightarrow> 'a list \<Rightarrow> 'a list" where
  "update_each g ps xs = fold (\<lambda>i ys. ys[i := g (ys ! i)]) ps xs"

lemma first_index_None_iff [simp]:
  "first_index P xs = None \<longleftrightarrow> (\<forall>x \<in> set xs. \<not> P x)"
  by (induction xs) auto

lemma first_index_SomeD:
  assumes "first_index P xs = Some i"
  shows "i < length xs \<and> P (xs ! i) \<and> (\<forall>j < i. \<not> P (xs ! j))"
  using assms
proof (induction xs arbitrary: i)
  case Nil
  then show ?case by simp
next
  case (Cons x xs)
  show ?case
  proof (cases "P x")
    case True
    with Cons.prems show ?thesis by simp
  next
    case False
    with Cons.prems obtain k where k: "first_index P xs = Some k" and i: "i = Suc k"
      by auto
    from Cons.IH [OF k] False show ?thesis
      by (auto simp: i less_Suc_eq_0_disj)
  qed
qed

lemma first_index_Some_iff:
  "first_index P xs = Some i \<longleftrightarrow> i < length xs \<and> P (xs ! i) \<and> (\<forall>j < i. \<not> P (xs ! j))"
proof
  assume "first_index P xs = Some i"
  then show "i < length xs \<and> P (xs ! i) \<and> (\<forall>j < i. \<not> P (xs ! j))"
    by (rule first_index_SomeD)
next
  assume r: "i < length xs \<and> P (xs ! i) \<and> (\<forall>j < i. \<not> P (xs ! j))"
  then show "first_index P xs = Some i"
  proof (induction xs arbitrary: i)
    case Nil
    then show ?case by simp
  next
    case (Cons x xs)
    show ?case
    proof (cases i)
      case 0
      with Cons.prems show ?thesis by simp
    next
      case (Suc k)
      with Cons.prems have "\<not> P x" by auto
      moreover from Cons.prems Suc have "first_index P xs = Some k"
        by (intro Cons.IH) auto
      ultimately show ?thesis by (simp add: Suc)
    qed
  qed
qed

lemma first_index_map_eq:
  "map f xs = map f ys \<Longrightarrow> first_index (\<lambda>x. P (f x)) xs = first_index (\<lambda>x. P (f x)) ys"
proof (induction xs arbitrary: ys)
  case Nil
  then show ?case by simp
next
  case (Cons x xs)
  then obtain y ys' where "ys = y # ys'" "f x = f y" "map f xs = map f ys'"
    by (cases ys) auto
  with Cons.IH show ?case by simp
qed

lemma first_index_unique:
  assumes "i < length xs" and "P (xs ! i)"
    and "\<forall>j < length xs. P (xs ! j) \<longrightarrow> j = i"
  shows "first_index P xs = Some i"
proof -
  have "\<forall>j < i. \<not> P (xs ! j)"
    using assms by (metis less_trans less_irrefl)
  with assms(1,2) show ?thesis
    by (simp only: first_index_Some_iff simp_thms)
qed

lemma map_update_keep: "f y = f (xs ! i) \<Longrightarrow> map f (xs[i := y]) = map f xs"
  by (metis list_update_id list_update_beyond map_update nth_map not_less)

lemma length_update_each [simp]: "length (update_each g ps xs) = length xs"
  by (induction ps arbitrary: xs) (simp_all add: update_each_def)

lemma update_each_Cons: "update_each g (i # ps) xs = update_each g ps (xs[i := g (xs ! i)])"
  by (simp add: update_each_def)

lemma update_each_nth:
  assumes "distinct ps" and "j < length xs"
  shows "update_each g ps xs ! j = (if j \<in> set ps then g (xs ! j) else xs ! j)"
  using assms
proof (induction ps arbitrary: xs)
  case Nil
  then show ?case by (simp add: update_each_def)
next
  case (Cons i ps)
  have "update_each g (i # ps) xs ! j = update_each g ps (xs[i := g (xs ! i)]) ! j"
    by (simp add: update_each_Cons)
  also from Cons have "\<dots> = (if j \<in> set ps then g (xs[i := g (xs ! i)] ! j)
      else xs[i := g (xs ! i)] ! j)"
    by simp
  also from Cons.prems have "\<dots> = (if j \<in> set (i # ps) then g (xs ! j) else xs ! j)"
    by (cases "i = j") (auto simp: nth_list_update_neq)
  finally show ?case .
qed

lemma update_each_map:
  assumes "distinct ps"
  shows "update_each g ps xs = map (\<lambda>j. if j \<in> set ps then g (xs ! j) else xs ! j) [0..<length xs]"
  using assms by (intro nth_equalityI) (simp_all add: update_each_nth)

lemma distinct_map_filter_inj:
  assumes "distinct (map f (filter P xs))"
    and "i < length xs" "j < length xs" "P (xs ! i)" "P (xs ! j)" "f (xs ! i) = f (xs ! j)"
  shows "i = j"
  using assms
proof (induction xs arbitrary: i j)
  case Nil
  then show ?case by simp
next
  case (Cons x xs)
  show ?case
  proof (cases i)
    case 0
    show ?thesis
    proof (cases j)
      case (Suc j')
      from 0 Cons.prems have px: "P x" by simp
      from Suc 0 Cons.prems have "f x \<in> f ` {y \<in> set xs. P y}"
        by (auto intro!: image_eqI [of _ f "xs ! j'"])
      moreover from Cons.prems(1) px have "f x \<notin> f ` {y \<in> set xs. P y}"
        by simp
      ultimately show ?thesis by blast
    qed (simp add: 0)
  next
    case (Suc i')
    show ?thesis
    proof (cases j)
      case 0
      from 0 Cons.prems have px: "P x" by simp
      from Suc 0 Cons.prems have "f x \<in> f ` {y \<in> set xs. P y}"
        by (auto intro!: image_eqI [of _ f "xs ! i'"])
      moreover from Cons.prems(1) px have "f x \<notin> f ` {y \<in> set xs. P y}"
        by simp
      ultimately show ?thesis by blast
    next
      case (Suc j')
      with \<open>i = Suc i'\<close> Cons.prems have "i' = j'"
        by (intro Cons.IH) (auto split: if_splits)
      with Suc \<open>i = Suc i'\<close> show ?thesis by simp
    qed
  qed
qed

lemma distinct_subset_singleton:
  assumes "distinct xs" and "set xs \<subseteq> {a}"
  shows "xs = (if a \<in> set xs then [a] else [])"
proof (cases xs)
  case Nil
  then show ?thesis by simp
next
  case (Cons y ys)
  with assms have y: "y = a" and "a \<notin> set ys" "set ys \<subseteq> {a}"
    by auto
  then have "ys = []"
    by (cases ys) auto
  with Cons y show ?thesis by simp
qed

lemma distinct_subset_singleton_length:
  "distinct xs \<Longrightarrow> set xs \<subseteq> {a} \<Longrightarrow> length xs \<le> 1"
  by (drule (1) distinct_subset_singleton) (simp split: if_splits)

lemma mset_concat_update_append:
  "i < length xss \<Longrightarrow> mset (concat (xss[i := xss ! i @ ys])) = mset (concat xss) + mset ys"
proof (induction xss arbitrary: i)
  case Nil
  then show ?case by simp
next
  case (Cons xs xss)
  then show ?case by (cases i) (simp_all add: ac_simps)
qed

lemma map_filter_cong_nth:
  assumes "length xs = length ys"
    and "\<And>i. i < length xs \<Longrightarrow> f (xs ! i) = g (ys ! i) \<and> P (xs ! i) = Q (ys ! i)"
  shows "map f (filter P xs) = map g (filter Q ys)"
  using assms
proof (induction xs ys rule: list_induct2)
  case Nil
  then show ?case by simp
next
  case (Cons x xs y ys)
  from Cons.prems [of 0] have "f x = g y" "P x = Q y" by simp_all
  moreover have "map f (filter P xs) = map g (filter Q ys)"
  proof (rule Cons.IH)
    fix i assume "i < length xs"
    with Cons.prems [of "Suc i"] show "f (xs ! i) = g (ys ! i) \<and> P (xs ! i) = Q (ys ! i)"
      by simp
  qed
  ultimately show ?case by simp
qed

lemma distinct_subset_singleton_cases:
  "distinct xs \<Longrightarrow> set xs \<subseteq> {a} \<Longrightarrow> xs = [] \<or> xs = [a]"
  by (drule (1) distinct_subset_singleton) (simp split: if_splits)

lemma distinct_fst_lookup:
  "distinct (map fst xs) \<Longrightarrow> (b, a) \<in> set xs \<Longrightarrow> map snd (filter (\<lambda>(b', a'). b' = b) xs) = [a]"
proof (induction xs)
  case Nil
  then show ?case by simp
next
  case (Cons x xs)
  obtain b' a' where x: "x = (b', a')" by fastforce
  show ?case
  proof (cases "b' = b")
    case True
    with Cons.prems x have "a' = a" and "\<forall>y \<in> set xs. fst y \<noteq> b"
      by (auto simp: image_iff)
    then have "filter (\<lambda>(b', a'). b' = b) xs = []"
      by (auto simp: filter_empty_conv)
    with True x \<open>a' = a\<close> show ?thesis by simp
  next
    case False
    with Cons x show ?thesis by simp
  qed
qed

end
