(* ===== verification/DOM_Model.thy ===== *)
theory DOM_Model
  imports Prelude
begin

text \<open>
  The part of the browser that \<open>hideandshowactions.js\<close> calls: the document's elements
  in tree order, their \<open>id\<close>, class list, inline \<open>style.display\<close> and event listener
  list; \<open>document.getElementsByClassName\<close>, \<open>document.getElementById\<close>, assignment to
  \<open>style.display\<close>, \<open>EventTarget.addEventListener\<close>, the allocation of a fresh function
  object, and the dispatch of an event to the listeners of its target. This is host
  code, not code of the repository: it is modelled from the DOM standard as the
  specification describes it. The model is generic in the type \<open>'cb\<close> of the callbacks
  the page stores; the controller theory instantiates it with its closures, and the
  dispatch takes the callback's semantics as a parameter \<open>call\<close>.

  An element reference is the element's position in tree order (\<open>ptr\<close>); the
  controller never creates or removes elements, so positions stay valid. A listener
  result \<open>js_error option \<times> 'cb page\<close> is the exception the callback threw, if any,
  with the page as the callback left it: a JavaScript exception does not undo the
  assignments made before it.
\<close>

datatype js_error = TypeError \<comment> \<open>reading a property of \<open>null\<close>\<close>

record 'cb listener =
  l_type :: string
  l_callback :: 'cb
  l_capture :: bool

record 'cb element =
  el_id :: ident \<comment> \<open>\<open>element.id\<close>: the \<open>id\<close> attribute, \<open>''''\<close> when there is none\<close>
  el_classes :: "ident list" \<comment> \<open>the class list, tokens of the \<open>class\<close> attribute\<close>
  display :: string \<comment> \<open>\<open>element.style.display\<close>, \<open>''''\<close> when no inline value is set\<close>
  el_listeners :: "'cb listener list" \<comment> \<open>the event listener list, in registration order\<close>

record 'cb page =
  elements :: "'cb element list" \<comment> \<open>the document's elements in tree order\<close>
  fn_count :: nat \<comment> \<open>function objects allocated so far; a new one gets this number\<close>

type_synonym 'cb callback_sem = "'cb \<Rightarrow> 'cb page \<Rightarrow> js_error option \<times> 'cb page"

definition dom_shape :: "'cb page \<Rightarrow> (ident \<times> ident list) list" where
  "dom_shape p = map (\<lambda>e. (el_id e, el_classes e)) (elements p)"

definition erase_display :: "'cb element \<Rightarrow> 'cb element" where
  "erase_display e = e\<lparr>display := []\<rparr>"

definition display_only :: "'cb page \<Rightarrow> 'cb page \<Rightarrow> bool" where
  "display_only p q \<longleftrightarrow>
     map erase_display (elements p) = map erase_display (elements q) \<and> fn_count p = fn_count q"

definition all_listeners :: "'cb page \<Rightarrow> 'cb listener list" where
  "all_listeners p = concat (map el_listeners (elements p))"

definition getElementsByClassName :: "ident \<Rightarrow> 'cb page \<Rightarrow> ptr list" where
  "getElementsByClassName c p =
     filter (\<lambda>i. c \<in> set (el_classes (elements p ! i))) [0..<length (elements p)]"

definition getElementById :: "ident \<Rightarrow> 'cb page \<Rightarrow> ptr option" where
  "getElementById x p = (if x = [] then None else first_index (\<lambda>e. el_id e = x) (elements p))"

definition set_display :: "ptr \<Rightarrow> string \<Rightarrow> 'cb page \<Rightarrow> 'cb page" where
  "set_display i v p = p\<lparr>elements := (elements p)[i := (elements p ! i)\<lparr>display := v\<rparr>]\<rparr>"

definition new_function :: "'cb page \<Rightarrow> nat \<times> 'cb page" where
  "new_function p = (fn_count p, p\<lparr>fn_count := Suc (fn_count p)\<rparr>)"

definition addEventListener :: "ptr \<Rightarrow> string \<Rightarrow> 'cb \<Rightarrow> 'cb page \<Rightarrow> 'cb page" where
  "addEventListener i t cb p =
     (let e = elements p ! i;
          l = \<lparr>l_type = t, l_callback = cb, l_capture = False\<rparr>
      in if l \<in> set (el_listeners e) then p
         else p\<lparr>elements := (elements p)[i := e\<lparr>el_listeners := el_listeners e @ [l]\<rparr>]\<rparr>)"

fun invoke_listeners ::
  "'cb callback_sem \<Rightarrow> string \<Rightarrow> 'cb listener list \<Rightarrow> 'cb page \<Rightarrow> js_error list \<times> 'cb page"
where
  "invoke_listeners call t [] p = ([], p)"
| "invoke_listeners call t (l # ls) p =
     (if l_type l = t then
        (let (r, p1) = call (l_callback l) p;
             (errs, p2) = invoke_listeners call t ls p1
         in ((case r of None \<Rightarrow> [] | Some e \<Rightarrow> [e]) @ errs, p2))
      else invoke_listeners call t ls p)"

definition dispatch_event ::
  "'cb callback_sem \<Rightarrow> string \<Rightarrow> ptr \<Rightarrow> 'cb page \<Rightarrow> js_error list \<times> 'cb page"
where
  "dispatch_event call t i p =
     (if i < length (elements p)
      then invoke_listeners call t (el_listeners (elements p ! i)) p
      else ([], p))"

subsection \<open>Lookups\<close>

lemma getElementById_Some_iff:
  "getElementById x p = Some i \<longleftrightarrow>
     x \<noteq> [] \<and> i < length (elements p) \<and> el_id (elements p ! i) = x \<and>
     (\<forall>j < i. el_id (elements p ! j) \<noteq> x)"
  by (simp add: getElementById_def first_index_Some_iff)

lemma getElementById_None_iff:
  "getElementById x p = None \<longleftrightarrow> x = [] \<or> (\<forall>e \<in> set (elements p). el_id e \<noteq> x)"
  by (simp add: getElementById_def)

lemma getElementById_SomeD:
  "getElementById x p = Some i \<Longrightarrow> i < length (elements p) \<and> el_id (elements p ! i) = x"
  by (simp add: getElementById_Some_iff)

lemma getElementById_shape:
  fixes p q :: "'cb page"
  assumes "dom_shape p = dom_shape q"
  shows "getElementById x p = getElementById x q"
proof -
  from assms have "map (\<lambda>e. (el_id e, el_classes e)) (elements p) =
      map (\<lambda>e. (el_id e, el_classes e)) (elements q)"
    by (simp add: dom_shape_def)
  from first_index_map_eq [of "\<lambda>e. (el_id e, el_classes e)" "elements p" "elements q"
      "\<lambda>v. fst v = x", OF this]
  show ?thesis by (simp add: getElementById_def)
qed

lemma length_shape:
  "dom_shape p = dom_shape q \<Longrightarrow> length (elements p) = length (elements q)"
  unfolding dom_shape_def by (metis length_map)

lemma shape_nth:
  assumes "dom_shape p = dom_shape q" and "i < length (elements p)"
  shows "el_id (elements q ! i) = el_id (elements p ! i)"
    and "el_classes (elements q ! i) = el_classes (elements p ! i)"
proof -
  from assms have "map (\<lambda>e. (el_id e, el_classes e)) (elements p) ! i =
      map (\<lambda>e. (el_id e, el_classes e)) (elements q) ! i"
    by (simp add: dom_shape_def)
  with assms length_shape [OF assms(1)]
  show "el_id (elements q ! i) = el_id (elements p ! i)"
    and "el_classes (elements q ! i) = el_classes (elements p ! i)"
    by simp_all
qed

lemma getElementsByClassName_shape:
  assumes "dom_shape p = dom_shape q"
  shows "getElementsByClassName c p = getElementsByClassName c q"
  unfolding getElementsByClassName_def
  using length_shape [OF assms] shape_nth(2) [OF assms]
  by (intro filter_cong) auto

lemma getElementsByClassName_distinct: "distinct (getElementsByClassName c p)"
  by (simp add: getElementsByClassName_def)

lemma getElementsByClassName_set:
  "set (getElementsByClassName c p) =
     {i. i < length (elements p) \<and> c \<in> set (el_classes (elements p ! i))}"
  by (auto simp: getElementsByClassName_def)

subsection \<open>Updates\<close>

lemma set_display_elements [page_simps]:
  "elements (set_display i v p) = (elements p)[i := (elements p ! i)\<lparr>display := v\<rparr>]"
  by (simp add: set_display_def)

lemma set_display_fn_count [page_simps]: "fn_count (set_display i v p) = fn_count p"
  by (simp add: set_display_def)

lemma set_display_shape [page_simps]: "dom_shape (set_display i v p) = dom_shape p"
  by (simp add: set_display_def dom_shape_def map_update_keep)

lemma set_display_nth_same:
  "i < length (elements p) \<Longrightarrow> elements (set_display i v p) ! i = (elements p ! i)\<lparr>display := v\<rparr>"
  by (simp add: set_display_def)

lemma set_display_twice: "set_display i v (set_display i w p) = set_display i v p"
  by (cases "i < length (elements p)") (simp_all add: set_display_def list_update_beyond not_less)

lemma set_display_getElementById [page_simps]:
  "getElementById x (set_display i v p) = getElementById x p"
  by (rule getElementById_shape) (simp add: set_display_shape)

lemma fold_set_display:
  "fold (\<lambda>i q. set_display i v q) ps p =
     p\<lparr>elements := update_each (\<lambda>e. e\<lparr>display := v\<rparr>) ps (elements p)\<rparr>"
  by (induction ps arbitrary: p) (simp_all add: update_each_def set_display_def)

lemma addEventListener_shape [page_simps]: "dom_shape (addEventListener i t cb p) = dom_shape p"
  by (simp add: addEventListener_def dom_shape_def map_update_keep Let_def)

lemma addEventListener_fn_count [page_simps]: "fn_count (addEventListener i t cb p) = fn_count p"
  by (simp add: addEventListener_def Let_def)

lemma addEventListener_displays [page_simps]:
  "map display (elements (addEventListener i t cb p)) = map display (elements p)"
  by (simp add: addEventListener_def map_update_keep Let_def)

lemma dom_shape_fn_count_update [simp]: "dom_shape (p\<lparr>fn_count := n\<rparr>) = dom_shape p"
  by (simp add: dom_shape_def)

lemma new_function_shape [page_simps]: "dom_shape (snd (new_function p)) = dom_shape p"
  by (simp add: new_function_def dom_shape_def)

lemma addEventListener_nth:
  assumes "i < length (elements p)" and "j < length (elements p)"
  shows "elements (addEventListener i t cb p) ! j =
    (if j = i \<and> \<lparr>l_type = t, l_callback = cb, l_capture = False\<rparr> \<notin> set (el_listeners (elements p ! i))
     then (elements p ! i)\<lparr>el_listeners := el_listeners (elements p ! i) @
            [\<lparr>l_type = t, l_callback = cb, l_capture = False\<rparr>]\<rparr>
     else elements p ! j)"
  using assms by (auto simp: addEventListener_def Let_def nth_list_update)

subsection \<open>Changes of \<open>style.display\<close> only\<close>

lemma display_only_refl [simp]: "display_only p p"
  by (simp add: display_only_def)

lemma display_only_trans: "display_only p q \<Longrightarrow> display_only q r \<Longrightarrow> display_only p r"
  by (simp add: display_only_def)

lemma display_only_set_display: "display_only p (set_display i v p)"
  by (simp add: display_only_def set_display_def map_update_keep erase_display_def)

lemma display_only_fold_set_display: "display_only p (fold (\<lambda>i q. set_display i v q) ps p)"
proof (induction ps arbitrary: p)
  case Nil
  then show ?case by simp
next
  case (Cons i ps)
  from display_only_set_display Cons.IH [of "set_display i v p"]
  show ?case by (auto intro: display_only_trans)
qed

lemma display_only_shape: "display_only p q \<Longrightarrow> dom_shape q = dom_shape p"
proof -
  assume "display_only p q"
  then have "map (\<lambda>e. (el_id e, el_classes e)) (map erase_display (elements p)) =
      map (\<lambda>e. (el_id e, el_classes e)) (map erase_display (elements q))"
    by (simp add: display_only_def)
  then show ?thesis by (simp add: dom_shape_def erase_display_def comp_def)
qed

lemma display_only_listeners:
  "display_only p q \<Longrightarrow> map el_listeners (elements q) = map el_listeners (elements p)"
proof -
  assume "display_only p q"
  then have "map el_listeners (map erase_display (elements p)) =
      map el_listeners (map erase_display (elements q))"
    by (simp add: display_only_def)
  then show ?thesis by (simp add: erase_display_def comp_def)
qed

lemma display_only_fn_count: "display_only p q \<Longrightarrow> fn_count q = fn_count p"
  by (simp add: display_only_def)

lemma all_listeners_cong:
  "map el_listeners (elements p) = map el_listeners (elements q) \<Longrightarrow> all_listeners p = all_listeners q"
  by (simp add: all_listeners_def)

lemma addEventListener_all_listeners:
  assumes "i < length (elements p)"
  shows "mset (all_listeners (addEventListener i t cb p)) = mset (all_listeners p) +
    (if \<lparr>l_type = t, l_callback = cb, l_capture = False\<rparr> \<in> set (el_listeners (elements p ! i)) then {#}
     else {#\<lparr>l_type = t, l_callback = cb, l_capture = False\<rparr>#})"
proof -
  have "map el_listeners ((elements p)[i := (elements p ! i)\<lparr>el_listeners := el_listeners (elements p ! i)
      @ [\<lparr>l_type = t, l_callback = cb, l_capture = False\<rparr>]\<rparr>]) =
    (map el_listeners (elements p))[i := el_listeners (elements p ! i)
      @ [\<lparr>l_type = t, l_callback = cb, l_capture = False\<rparr>]]"
    using assms by (simp add: map_update)
  moreover have "mset (concat ((map el_listeners (elements p))[i := el_listeners (elements p ! i)
      @ [\<lparr>l_type = t, l_callback = cb, l_capture = False\<rparr>]])) =
    mset (concat (map el_listeners (elements p))) + {#\<lparr>l_type = t, l_callback = cb, l_capture = False\<rparr>#}"
    using mset_concat_update_append [of i "map el_listeners (elements p)"
        "[\<lparr>l_type = t, l_callback = cb, l_capture = False\<rparr>]"] assms
    by simp
  ultimately show ?thesis
    by (simp add: addEventListener_def all_listeners_def Let_def)
qed

subsection \<open>Dispatch\<close>

lemma invoke_listeners_append:
  "invoke_listeners call t (ls1 @ ls2) p =
     (let (errs1, p1) = invoke_listeners call t ls1 p;
          (errs2, p2) = invoke_listeners call t ls2 p1
      in (errs1 @ errs2, p2))"
  by (induction ls1 arbitrary: p) (auto split: prod.splits)

text \<open>
  The interface between the host and the callbacks it runs: a property of pages that
  every callback keeps is kept by every dispatch, whatever the listeners are.
\<close>

lemma invoke_listeners_preserves:
  assumes "\<And>cb q. P q \<Longrightarrow> P (snd (call cb q))" and "P p"
  shows "P (snd (invoke_listeners call t ls p))"
  using assms(2)
proof (induction ls arbitrary: p)
  case Nil
  then show ?case by simp
next
  case (Cons l ls)
  show ?case
  proof (cases "l_type l = t")
    case True
    obtain r p1 where c: "call (l_callback l) p = (r, p1)" by fastforce
    from assms(1) [OF Cons.prems, of "l_callback l"] c have "P p1" by simp
    then have "P (snd (invoke_listeners call t ls p1))" by (rule Cons.IH)
    with True c show ?thesis by (simp add: case_prod_unfold Let_def)
  next
    case False
    with Cons show ?thesis by simp
  qed
qed

lemma dispatch_event_preserves:
  assumes "\<And>cb q. P q \<Longrightarrow> P (snd (call cb q))" and "P p"
  shows "P (snd (dispatch_event call t i p))"
  using invoke_listeners_preserves [OF assms] assms(2) by (simp add: dispatch_event_def)

lemma invoke_listeners_preserves_on:
  assumes "\<And>l q. l \<in> set ls \<Longrightarrow> P q \<Longrightarrow> P (snd (call (l_callback l) q))" and "P p"
  shows "P (snd (invoke_listeners call t ls p))"
  using assms
proof (induction ls arbitrary: p)
  case Nil
  then show ?case by simp
next
  case (Cons l ls)
  have step: "P (snd (call (l_callback l) p))"
    using Cons.prems by simp
  have "P (snd (invoke_listeners call t ls q))" if "P q" for q
    using Cons.IH [of q] Cons.prems(1) that by simp
  with step Cons.prems(2) show ?case
    by (simp add: case_prod_unfold Let_def)
qed

lemma invoke_listeners_errors_length:
  "length (fst (invoke_listeners call t ls p)) \<le> length (filter (\<lambda>l. l_type l = t) ls)"
proof (induction ls arbitrary: p)
  case Nil
  then show ?case by simp
next
  case (Cons l ls)
  obtain r p1 where c: "call (l_callback l) p = (r, p1)" by fastforce
  from Cons.IH [of p1] Cons.IH [of p] c show ?case
    by (cases r) (simp_all add: case_prod_unfold Let_def)
qed

lemma listeners_at_le_all:
  "i < length (elements p) \<Longrightarrow> length (el_listeners (elements p ! i)) \<le> length (all_listeners p)"
  unfolding all_listeners_def length_concat
  by (rule member_le_sum_list) simp_all

lemma listeners_at_subset_all:
  "i < length (elements p) \<Longrightarrow> set (el_listeners (elements p ! i)) \<subseteq> set (all_listeners p)"
  unfolding all_listeners_def by (auto dest: nth_mem)

lemma dispatch_event_errors_length:
  "length (fst (dispatch_event call t i p)) \<le> length (all_listeners p)"
proof (cases "i < length (elements p)")
  case True
  have "length (fst (invoke_listeners call t (el_listeners (elements p ! i)) p)) \<le>
      length (el_listeners (elements p ! i))"
    using invoke_listeners_errors_length [of call t "el_listeners (elements p ! i)" p]
      length_filter_le [of "\<lambda>l. l_type l = t" "el_listeners (elements p ! i)"] by linarith
  with True listeners_at_le_all [OF True] show ?thesis
    by (simp add: dispatch_event_def)
qed (simp add: dispatch_event_def)

end
