(* ===== verification/Event_Path.thy ===== *)
theory Event_Path
  imports DOM_Model "HOL-Library.Monad_Syntax"
begin

text \<open>
  Event dispatch along the tree, as the DOM standard's dispatch algorithm does it for a
  \<open>click\<close> (an event that bubbles, with no shadow trees, no \<open>stopPropagation\<close> and no
  retargeting). The document tree is given by the parent of each element (\<open>tree\<close>,
  indexed by position). The controller never moves an element, so the tree is fixed
  for the life of the page. The event path is the target followed by its ancestors;
  \<open>event_path\<close> follows the parent links with \<open>partial_function (option)\<close>, so a list
  of links with a cycle, which no document has, is the value \<open>None\<close>. In a document the
  parent precedes the child in tree order (\<open>tree_wf\<close>), and then the path always
  exists. \<open>dispatch_bubbling\<close> runs the capture pass from the root down to the target,
  invoking the capturing listeners, and then the bubble pass from the target up to the
  root, invoking the others. The listener list of each element is read when that
  element's turn comes.
\<close>

type_synonym tree = "ptr option list" \<comment> \<open>the parent of each element, \<open>None\<close> for a child of the document\<close>

partial_function (option) event_path :: "tree \<Rightarrow> ptr \<Rightarrow> ptr list option" where
  "event_path par k =
     (if k < length par then
        (case par ! k of
           None \<Rightarrow> Some [k]
         | Some j \<Rightarrow> do { path \<leftarrow> event_path par j; Some (k # path) })
      else Some [k])"

definition tree_wf :: "tree \<Rightarrow> 'cb page \<Rightarrow> bool" where
  "tree_wf par p \<longleftrightarrow> length par = length (elements p) \<and>
     (\<forall>k < length par. case par ! k of None \<Rightarrow> True | Some j \<Rightarrow> j < k)"

definition dispatch_bubbling ::
  "'cb callback_sem \<Rightarrow> string \<Rightarrow> tree \<Rightarrow> ptr \<Rightarrow> 'cb page \<Rightarrow> (js_error list \<times> 'cb page) option"
where
  "dispatch_bubbling call t par k p =
     (if k < length (elements p) then
        do {
          path \<leftarrow> event_path par k;
          let phase = (\<lambda>capture j (errs, q).
            let (errs', q') = invoke_listeners call t
                  (filter (\<lambda>l. l_capture l = capture) (el_listeners (elements q ! j))) q
            in (errs @ errs', q'));
          Some (fold (phase False) path (fold (phase True) (rev path) ([], p)))
        }
      else Some ([], p))"

subsection \<open>The event path\<close>

lemma event_path_terminates_wf:
  assumes "tree_wf par p"
  shows "\<exists>path. event_path par k = Some path"
proof (induction k rule: less_induct)
  case (less k)
  show ?case
  proof (cases "k < length par")
    case True
    show ?thesis
    proof (cases "par ! k")
      case None
      with True show ?thesis by (simp add: event_path.simps)
    next
      case (Some j)
      with True assms have "j < k" by (force simp: tree_wf_def)
      then obtain path where "event_path par j = Some path"
        using less.IH by blast
      with True Some show ?thesis by (simp add: event_path.simps)
    qed
  qed (simp add: event_path.simps)
qed

lemma event_path_links:
  assumes ret: "event_path par k = Some path"
  shows "path \<noteq> [] \<and> hd path = k \<and>
    (\<forall>i. Suc i < length path \<longrightarrow> path ! i < length par \<and> par ! (path ! i) = Some (path ! Suc i)) \<and>
    (last path < length par \<longrightarrow> par ! last path = None)"
proof (rule event_path.raw_induct [where P = "\<lambda>par k path. path \<noteq> [] \<and> hd path = k \<and>
    (\<forall>i. Suc i < length path \<longrightarrow> path ! i < length par \<and> par ! (path ! i) = Some (path ! Suc i)) \<and>
    (last path < length par \<longrightarrow> par ! last path = None)", OF _ ret])
  fix f par k path
  assume IH: "\<And>par k path. f par k = Some path \<Longrightarrow> path \<noteq> [] \<and> hd path = k \<and>
      (\<forall>i. Suc i < length path \<longrightarrow> path ! i < length par \<and> par ! (path ! i) = Some (path ! Suc i)) \<and>
      (last path < length par \<longrightarrow> par ! last path = None)"
    and eq: "(if k < length par then
        (case par ! k of None \<Rightarrow> Some [k] | Some j \<Rightarrow> f par j \<bind> (\<lambda>path. Some (k # path)))
      else Some [k]) = Some path"
  show "path \<noteq> [] \<and> hd path = k \<and>
      (\<forall>i. Suc i < length path \<longrightarrow> path ! i < length par \<and> par ! (path ! i) = Some (path ! Suc i)) \<and>
      (last path < length par \<longrightarrow> par ! last path = None)"
  proof (cases "k < length par \<and> par ! k \<noteq> None")
    case False
    with eq show ?thesis by (auto split: if_splits option.splits)
  next
    case True
    then obtain j where j: "par ! k = Some j" and k: "k < length par" by auto
    with eq obtain rest where rest: "f par j = Some rest" and path: "path = k # rest"
      by (auto split: Option.bind_splits)
    from IH [OF rest] have r: "rest \<noteq> []" "hd rest = j"
      and links: "\<forall>i. Suc i < length rest \<longrightarrow> rest ! i < length par \<and> par ! (rest ! i) = Some (rest ! Suc i)"
      and root: "last rest < length par \<longrightarrow> par ! last rest = None"
      by simp_all
    have "path ! i < length par \<and> par ! (path ! i) = Some (path ! Suc i)" if "Suc i < length path" for i
    proof (cases i)
      case 0
      with r j k path show ?thesis by (simp add: hd_conv_nth)
    next
      case (Suc i')
      with that links path show ?thesis by simp
    qed
    with r root path show ?thesis by simp
  qed
qed

lemma event_path_in_tree:
  assumes wf: "tree_wf par p" and k: "k < length (elements p)" and ret: "event_path par k = Some path"
  shows "hd path = k \<and> sorted_wrt (>) path \<and> set path \<subseteq> {..<length (elements p)}"
proof -
  from event_path_links [OF ret] have ne: "path \<noteq> []" and h: "hd path = k"
    and links: "\<forall>i. Suc i < length path \<longrightarrow> path ! i < length par \<and> par ! (path ! i) = Some (path ! Suc i)"
    by simp_all
  have step: "path ! Suc i < path ! i" if "Suc i < length path" for i
    using links that wf by (force simp: tree_wf_def)
  then have sorted: "sorted_wrt (>) path"
    by (simp add: sorted_wrt_iff_nth_Suc_transp)
  have "path ! i \<le> k" if "i < length path" for i
    using that
  proof (induction i)
    case 0
    with ne h show ?case by (simp add: hd_conv_nth)
  next
    case (Suc i)
    with step [of i] show ?case by simp
  qed
  then have "x < length (elements p)" if "x \<in> set path" for x
    using that k by (metis in_set_conv_nth le_less_trans)
  then have "set path \<subseteq> {..<length (elements p)}"
    by blast
  with h sorted show ?thesis by simp
qed

lemma fold_phase_preserves:
  assumes "\<And>cb q. P q \<Longrightarrow> P (snd (call cb q))" and "P (snd r)"
  shows "P (snd (fold (\<lambda>j (errs, q). let (errs', q') = invoke_listeners call t
      (filter (\<lambda>l. l_capture l = c) (el_listeners (elements q ! j))) q in (errs @ errs', q')) xs r))"
  using assms(2)
proof (induction xs arbitrary: r)
  case Nil
  then show ?case by simp
next
  case (Cons j xs)
  obtain errs q where r: "r = (errs, q)" by fastforce
  have "P (snd (invoke_listeners call t (filter (\<lambda>l. l_capture l = c) (el_listeners (elements q ! j))) q))"
    using invoke_listeners_preserves [where P = P, OF assms(1)] Cons.prems r by simp
  then show ?case
    using Cons.IH r by (simp add: case_prod_unfold Let_def)
qed

lemma dispatch_bubbling_preserves:
  assumes "\<And>cb q. P q \<Longrightarrow> P (snd (call cb q))" and "P p"
    and "dispatch_bubbling call t par k p = Some r"
  shows "P (snd r)"
proof (cases "k < length (elements p)")
  case True
  with assms(3) obtain path where path: "event_path par k = Some path"
    and r: "r = fold (\<lambda>j (errs, q). let (errs', q') = invoke_listeners call t
          (filter (\<lambda>l. l_capture l = False) (el_listeners (elements q ! j))) q in (errs @ errs', q')) path
        (fold (\<lambda>j (errs, q). let (errs', q') = invoke_listeners call t
          (filter (\<lambda>l. l_capture l = True) (el_listeners (elements q ! j))) q in (errs @ errs', q')) (rev path) ([], p))"
    by (auto simp: dispatch_bubbling_def Let_def split: Option.bind_splits)
  show ?thesis
    unfolding r using assms(2) by (intro fold_phase_preserves [where P = P, OF assms(1)]) simp_all
next
  case False
  with assms(3) have "r = ([], p)" by (simp add: dispatch_bubbling_def)
  with assms(2) show ?thesis by simp
qed

subsection \<open>The path on a well-formed tree\<close>

lemma event_path_returns:
  assumes "tree_wf par p" and "k < length (elements p)"
  shows "\<exists>path. event_path par k = Some path \<and> hd path = k \<and> sorted_wrt (>) path \<and>
    set path \<subseteq> {..<length (elements p)}"
proof -
  obtain path where ret: "event_path par k = Some path"
    using event_path_terminates_wf [OF assms(1)] by blast
  with event_path_in_tree [OF assms ret] show ?thesis by blast
qed

text \<open>
  The option type is what makes \<open>event_path\<close> a definition at all: on a list of
  parent links with a cycle (an element that is its own parent, which no document has)
  the computation does not return.
\<close>

lemma event_path_cycle: "event_path [Some 0] 0 = None"
proof (rule ccontr)
  assume "event_path [Some 0] 0 \<noteq> None"
  then obtain path where ret: "event_path [Some 0] 0 = Some path" by blast
  have "(\<lambda>par k path. par = [Some (0::nat)] \<longrightarrow> k \<noteq> 0) [Some 0] (0::nat) path"
  proof (rule event_path.raw_induct [where P = "\<lambda>par k path. par = [Some (0::nat)] \<longrightarrow> k \<noteq> 0", OF _ ret])
    fix f par k path
    assume IH: "\<And>par k path. f par k = Some path \<Longrightarrow> par = [Some 0] \<longrightarrow> k \<noteq> 0"
      and eq: "(if k < length par then
          (case par ! k of None \<Rightarrow> Some [k] | Some j \<Rightarrow> f par j \<bind> (\<lambda>path. Some (k # path)))
        else Some [k]) = Some path"
    show "par = [Some 0] \<longrightarrow> k \<noteq> 0"
    proof
      assume par: "par = [Some 0]"
      show "k \<noteq> 0"
      proof
        assume "k = 0"
        with eq par obtain rest where "f par 0 = Some rest"
          by (auto split: Option.bind_splits)
        with IH par show False by blast
      qed
    qed
  qed
  then show False by simp
qed

end
