(* ===== verification/Actions.thy ===== *)
theory Actions
  imports DOM_Model
begin

text \<open>
  The three functions of \<open>src/main/resources/static/js/hideandshowactions.js\<close> and the
  anonymous click listener that \<open>registerShowActionOnClick\<close> installs, over the DOM model.
  \<open>hideAllOtherActions\<close> and \<open>toggleActionVisibility\<close> work on any page; a registration
  stores a \<open>closure\<close>, the function object of lines 17--20, which remembers its own
  identity and the \<open>actionId\<close> it captured. \<open>call_closure\<close> is what the host runs when the
  listener fires.
\<close>

datatype closure = ShowAction nat ident \<comment> \<open>function object number, captured \<open>actionId\<close>\<close>

type_synonym doc = "closure page"

definition is_action :: "'cb element \<Rightarrow> bool" where
  "is_action e \<longleftrightarrow> ''action'' \<in> set (el_classes e)"

definition hideAllOtherActions :: "ident \<Rightarrow> 'cb page \<Rightarrow> 'cb page" where
  "hideAllOtherActions exceptId p =
     (let actions = getElementsByClassName ''action'' p;
          others = filter (\<lambda>i. el_id (elements p ! i) \<noteq> exceptId) actions
      in fold (\<lambda>i q. set_display i ''none'' q) others p)"

definition toggled_display :: "string \<Rightarrow> string" where
  "toggled_display d = (if d = ''block'' then ''none'' else ''block'')"

definition toggleActionVisibility :: "ident \<Rightarrow> 'cb page \<Rightarrow> js_error + 'cb page" where
  "toggleActionVisibility id' p =
     (case getElementById id' p of
        None \<Rightarrow> Inl TypeError
      | Some i \<Rightarrow> Inr (set_display i (toggled_display (display (elements p ! i))) p))"

definition showActionListener :: "ident \<Rightarrow> 'cb page \<Rightarrow> js_error option \<times> 'cb page" where
  "showActionListener actionId p =
     (let p1 = hideAllOtherActions actionId p
      in case toggleActionVisibility actionId p1 of
           Inl e \<Rightarrow> (Some e, p1)
         | Inr p2 \<Rightarrow> (None, p2))"

fun call_closure :: "closure callback_sem" where
  "call_closure (ShowAction f actionId) p = showActionListener actionId p"

fun closure_fn :: "closure \<Rightarrow> nat" where
  "closure_fn (ShowAction f actionId) = f"

fun closure_action :: "closure \<Rightarrow> ident" where
  "closure_action (ShowAction f actionId) = actionId"

definition registerShowActionOnClick :: "ident \<Rightarrow> ident \<Rightarrow> doc \<Rightarrow> doc" where
  "registerShowActionOnClick buttonId actionId p =
     (case getElementById buttonId p of
        None \<Rightarrow> p
      | Some i \<Rightarrow>
          (let (f, p1) = new_function p
           in addEventListener i ''click'' (ShowAction f actionId) p1))"

definition action_ids_distinct :: "'cb page \<Rightarrow> bool" where
  "action_ids_distinct p \<longleftrightarrow> distinct (map el_id (filter is_action (elements p)))"

definition shown_actions :: "'cb page \<Rightarrow> ident list" where
  "shown_actions p = map el_id (filter (\<lambda>e. is_action e \<and> display e \<noteq> ''none'') (elements p))"

definition open_actions :: "'cb page \<Rightarrow> ident list" where
  "open_actions p = map el_id (filter (\<lambda>e. is_action e \<and> display e = ''block'') (elements p))"

definition fresh_closures :: "doc \<Rightarrow> bool" where
  "fresh_closures p \<longleftrightarrow>
     (\<forall>e \<in> set (elements p). \<forall>l \<in> set (el_listeners e). closure_fn (l_callback l) < fn_count p)"

text \<open>A page used by the witnesses: a button and two action panels, the second shown.\<close>

definition demo_page :: doc where
  "demo_page = \<lparr>elements = [
     \<lparr>el_id = ''b1'', el_classes = [''btn''], display = [], el_listeners = []\<rparr>,
     \<lparr>el_id = ''p1'', el_classes = [''action''], display = [], el_listeners = []\<rparr>,
     \<lparr>el_id = ''p2'', el_classes = [''panel'', ''action''], display = ''block'', el_listeners = []\<rparr>],
   fn_count = 0\<rparr>"

lemmas demo_simps = demo_page_def action_ids_distinct_def is_action_def shown_actions_def
  open_actions_def getElementById_def

subsection \<open>hideAllOtherActions\<close>

lemma hide_update_each:
  "update_each (\<lambda>e. e\<lparr>display := ''none''\<rparr>)
     (filter (\<lambda>i. el_id (elements p ! i) \<noteq> x) (getElementsByClassName ''action'' p)) (elements p) =
   map (\<lambda>e. if is_action e \<and> el_id e \<noteq> x then e\<lparr>display := ''none''\<rparr> else e) (elements p)"
proof -
  let ?xs = "elements p"
  let ?ps = "filter (\<lambda>i. el_id (?xs ! i) \<noteq> x) (getElementsByClassName ''action'' p)"
  have d: "distinct ?ps"
    by (simp add: getElementsByClassName_distinct)
  have s: "\<And>j. j < length ?xs \<Longrightarrow>
      j \<in> set (getElementsByClassName ''action'' p) \<longleftrightarrow> is_action (?xs ! j)"
    by (simp add: getElementsByClassName_set is_action_def)
  show ?thesis
    by (rule nth_equalityI) (simp_all add: update_each_nth [OF d] s)
qed

lemma hide_elements:
  "elements (hideAllOtherActions x p) =
     map (\<lambda>e. if is_action e \<and> el_id e \<noteq> x then e\<lparr>display := ''none''\<rparr> else e) (elements p)"
  by (simp add: hideAllOtherActions_def fold_set_display Let_def hide_update_each)

lemma hide_fn_count [page_simps]: "fn_count (hideAllOtherActions x p) = fn_count p"
  by (simp add: hideAllOtherActions_def fold_set_display Let_def)

lemma hide_display_only: "display_only p (hideAllOtherActions x p)"
  unfolding hideAllOtherActions_def Let_def by (rule display_only_fold_set_display)

lemma hide_shape [page_simps]: "dom_shape (hideAllOtherActions x p) = dom_shape p"
  by (rule display_only_shape [OF hide_display_only])

lemma hide_getElementById [page_simps]:
  "getElementById y (hideAllOtherActions x p) = getElementById y p"
  by (rule getElementById_shape) (simp add: hide_shape)

subsection \<open>toggleActionVisibility\<close>

lemma toggle_None: "getElementById x p = None \<Longrightarrow> toggleActionVisibility x p = Inl TypeError"
  by (simp add: toggleActionVisibility_def)

lemma toggle_Some:
  "getElementById x p = Some i \<Longrightarrow>
     toggleActionVisibility x p = Inr (set_display i (toggled_display (display (elements p ! i))) p)"
  by (simp add: toggleActionVisibility_def)

lemma toggled_display_cases: "toggled_display d = ''none'' \<or> toggled_display d = ''block''"
  by (simp add: toggled_display_def)




subsection \<open>registerShowActionOnClick\<close>

lemma register_missing:
  "getElementById b p = None \<Longrightarrow> registerShowActionOnClick b a p = p"
  by (simp add: registerShowActionOnClick_def)

lemma register_found:
  "getElementById b p = Some i \<Longrightarrow> registerShowActionOnClick b a p =
     addEventListener i ''click'' (ShowAction (fn_count p) a) (p\<lparr>fn_count := Suc (fn_count p)\<rparr>)"
  by (simp add: registerShowActionOnClick_def new_function_def)

lemma register_shape [page_simps]:
  "dom_shape (registerShowActionOnClick b a p) = dom_shape p"
  by (cases "getElementById b p")
     (simp_all add: register_missing register_found addEventListener_shape)

lemma register_displays [page_simps]:
  "map display (elements (registerShowActionOnClick b a p)) = map display (elements p)"
  by (cases "getElementById b p") (simp_all add: register_missing register_found addEventListener_displays)

lemma register_listeners_at:
  assumes "getElementById b p = Some k"
  shows "el_listeners (elements (registerShowActionOnClick b a p) ! k) =
    el_listeners (elements p ! k) @
      (if \<lparr>l_type = ''click'', l_callback = ShowAction (fn_count p) a, l_capture = False\<rparr>
            \<in> set (el_listeners (elements p ! k))
       then [] else [\<lparr>l_type = ''click'', l_callback = ShowAction (fn_count p) a, l_capture = False\<rparr>])"
proof -
  from assms have "k < length (elements p)" by (simp add: getElementById_SomeD)
  with assms show ?thesis
    by (simp add: register_found addEventListener_def Let_def)
qed

lemma register_fn_count:
  "getElementById b p = Some k \<Longrightarrow> fn_count (registerShowActionOnClick b a p) = Suc (fn_count p)"
  by (simp add: register_found addEventListener_fn_count)

subsection \<open>The click listener\<close>

lemma listener_found:
  assumes "getElementById a p = Some i"
  shows "showActionListener a p =
    (None, p\<lparr>elements :=
      (map (\<lambda>e. if is_action e \<and> el_id e \<noteq> a then e\<lparr>display := ''none''\<rparr> else e) (elements p))
        [i := (elements p ! i)\<lparr>display := toggled_display (display (elements p ! i))\<rparr>]\<rparr>)"
proof -
  from assms have i: "i < length (elements p)" "el_id (elements p ! i) = a"
    by (simp_all add: getElementById_SomeD)
  from assms have "getElementById a (hideAllOtherActions a p) = Some i"
    by (simp add: hide_getElementById)
  with i show ?thesis
    by (simp add: showActionListener_def toggle_Some set_display_def hide_elements hide_fn_count)
qed

lemma listener_missing:
  "getElementById a p = None \<Longrightarrow> showActionListener a p = (Some TypeError, hideAllOtherActions a p)"
  by (simp add: showActionListener_def toggle_None hide_getElementById)

lemma listener_display_only: "display_only p (snd (showActionListener a p))"
proof (cases "getElementById a p")
  case None
  then show ?thesis by (simp add: listener_missing hide_display_only)
next
  case (Some i)
  then have "getElementById a (hideAllOtherActions a p) = Some i"
    by (simp add: hide_getElementById)
  then have "snd (showActionListener a p) =
      set_display i (toggled_display (display (elements (hideAllOtherActions a p) ! i)))
        (hideAllOtherActions a p)"
    by (simp add: showActionListener_def toggle_Some Let_def)
  then show ?thesis
    by (metis hide_display_only display_only_set_display display_only_trans)
qed

lemma listener_shown_ids:
  assumes "x \<in> set (shown_actions (snd (showActionListener a p)))"
  shows "x = a"
proof (cases "getElementById a p")
  case None
  with assms show ?thesis
    by (auto simp: listener_missing hide_elements shown_actions_def is_action_def)
next
  case (Some i)
  then have i: "i < length (elements p)" "el_id (elements p ! i) = a"
    by (simp_all add: getElementById_SomeD)
  from assms Some obtain e where
    e: "e \<in> set ((map (\<lambda>e. if is_action e \<and> el_id e \<noteq> a then e\<lparr>display := ''none''\<rparr> else e)
        (elements p))[i := (elements p ! i)\<lparr>display := toggled_display (display (elements p ! i))\<rparr>])"
      and x: "x = el_id e" "is_action e" "display e \<noteq> ''none''"
    by (auto simp: listener_found shown_actions_def)
  from e have "e \<in> insert ((elements p ! i)\<lparr>display := toggled_display (display (elements p ! i))\<rparr>)
      (set (map (\<lambda>e. if is_action e \<and> el_id e \<noteq> a then e\<lparr>display := ''none''\<rparr> else e) (elements p)))"
    by (rule set_mp [OF set_update_subset_insert])
  with x i show ?thesis
    by (auto simp: is_action_def split: if_splits)
qed

subsection \<open>Views of the action panels\<close>

lemma action_ids_shape:
  "map el_id (filter is_action (elements p)) =
     map fst (filter (\<lambda>v. ''action'' \<in> set (snd v)) (dom_shape p))"
  unfolding is_action_def by (simp add: dom_shape_def filter_map comp_def)

lemma action_ids_distinct_shape:
  "dom_shape p = dom_shape q \<Longrightarrow> action_ids_distinct q = action_ids_distinct p"
  by (simp add: action_ids_distinct_def action_ids_shape)

lemma shown_actions_distinct: "action_ids_distinct p \<Longrightarrow> distinct (shown_actions p)"
proof -
  assume "action_ids_distinct p"
  then have "distinct (map el_id (filter (\<lambda>e. display e \<noteq> ''none'') (filter is_action (elements p))))"
    unfolding action_ids_distinct_def by (rule distinct_map_filter)
  then show ?thesis by (simp add: shown_actions_def filter_filter)
qed

lemma open_actions_distinct: "action_ids_distinct p \<Longrightarrow> distinct (open_actions p)"
proof -
  assume "action_ids_distinct p"
  then have "distinct (map el_id (filter (\<lambda>e. display e = ''block'') (filter is_action (elements p))))"
    unfolding action_ids_distinct_def by (rule distinct_map_filter)
  then show ?thesis by (simp add: open_actions_def filter_filter)
qed

lemma open_subset_shown: "set (open_actions p) \<subseteq> set (shown_actions p)"
  by (auto simp: open_actions_def shown_actions_def)

lemma open_le_shown: "length (open_actions p) \<le> length (shown_actions p)"
proof -
  have "filter (\<lambda>e. is_action e \<and> display e = ''block'') (elements p) =
      filter (\<lambda>e. display e = ''block'') (filter (\<lambda>e. is_action e \<and> display e \<noteq> ''none'') (elements p))"
    unfolding filter_filter by (rule filter_cong) auto
  then have "length (open_actions p) = length (filter (\<lambda>e. display e = ''block'')
      (filter (\<lambda>e. is_action e \<and> display e \<noteq> ''none'') (elements p)))"
    by (simp only: open_actions_def length_map)
  also have "\<dots> \<le> length (filter (\<lambda>e. is_action e \<and> display e \<noteq> ''none'') (elements p))"
    by (rule length_filter_le)
  also have "\<dots> = length (shown_actions p)"
    by (simp add: shown_actions_def)
  finally show ?thesis .
qed

lemma panel_views_cong:
  assumes "dom_shape p = dom_shape q" and "map display (elements p) = map display (elements q)"
  shows "shown_actions p = shown_actions q" and "open_actions p = open_actions q"
proof -
  have l: "length (elements p) = length (elements q)"
    by (rule length_shape [OF assms(1)])
  have n: "\<And>i. i < length (elements p) \<Longrightarrow> el_id (elements p ! i) = el_id (elements q ! i) \<and>
      is_action (elements p ! i) = is_action (elements q ! i) \<and>
      display (elements p ! i) = display (elements q ! i)"
  proof -
    fix i assume i: "i < length (elements p)"
    from assms(2) have "map display (elements p) ! i = map display (elements q) ! i" by simp
    with i l shape_nth [OF assms(1) i] show "el_id (elements p ! i) = el_id (elements q ! i) \<and>
        is_action (elements p ! i) = is_action (elements q ! i) \<and>
        display (elements p ! i) = display (elements q ! i)"
      by (simp add: is_action_def)
  qed
  show "shown_actions p = shown_actions q"
    unfolding shown_actions_def by (rule map_filter_cong_nth [OF l]) (simp add: n)
  show "open_actions p = open_actions q"
    unfolding open_actions_def by (rule map_filter_cong_nth [OF l]) (simp add: n)
qed

lemma open_member_iff:
  assumes "action_ids_distinct p" and "i < length (elements p)"
    and "is_action (elements p ! i)" and "el_id (elements p ! i) = a"
  shows "a \<in> set (open_actions p) \<longleftrightarrow> display (elements p ! i) = ''block''"
proof
  assume "a \<in> set (open_actions p)"
  then obtain j where j: "j < length (elements p)" "is_action (elements p ! j)"
      "display (elements p ! j) = ''block''" "el_id (elements p ! j) = a"
    by (auto simp: open_actions_def in_set_conv_nth)
  from assms j have "j = i"
    by (intro distinct_map_filter_inj [of el_id is_action "elements p"])
       (simp_all add: action_ids_distinct_def)
  with j show "display (elements p ! i) = ''block''" by simp
next
  assume "display (elements p ! i) = ''block''"
  with assms have "elements p ! i \<in> set (filter (\<lambda>e. is_action e \<and> display e = ''block'') (elements p))"
    by simp
  with assms(4) show "a \<in> set (open_actions p)"
    unfolding open_actions_def by (simp add: image_iff) (metis)
qed

lemma listener_action_ids_distinct:
  "action_ids_distinct (snd (showActionListener a p)) = action_ids_distinct p"
  by (metis action_ids_distinct_shape display_only_shape listener_display_only)

text \<open>
  C1. Mutual exclusion: when the action panels have distinct identifiers, after the
  click listener for any \<open>actionId\<close> has run, at most one action panel has an inline
  \<open>display\<close> other than \<open>none\<close>, whatever the page looked like before, and also
  when the listener threw.
\<close>

theorem showActionListener_exclusive:
  assumes "action_ids_distinct p"
  shows "length (shown_actions (snd (showActionListener a p))) \<le> 1"
proof -
  let ?q = "snd (showActionListener a p)"
  from assms have "distinct (shown_actions ?q)"
    by (simp add: shown_actions_distinct listener_action_ids_distinct)
  moreover have "set (shown_actions ?q) \<subseteq> {a}"
    using listener_shown_ids by blast
  ultimately show ?thesis
    by (rule distinct_subset_singleton_length)
qed

theorem showActionListener_exclusive_witness:
  "action_ids_distinct demo_page \<and>
   length (shown_actions (snd (showActionListener ''p1'' demo_page))) \<le> 1"
  using showActionListener_exclusive [of demo_page "''p1''"]
  by (simp add: demo_simps)

text \<open>
  C2. The click listener for \<open>actionId\<close> when an element with that id exists (the
  first one in tree order is \<open>i\<close>): it throws nothing, changes nothing but inline
  \<open>display\<close> values, sets \<open>i\<close> to the toggle of its display before the click, hides
  every action panel with another id, and leaves every other element as it was.
\<close>

theorem showActionListener_found_spec:
  assumes "getElementById a p = Some i"
  shows "fst (showActionListener a p) = None \<and> display_only p (snd (showActionListener a p)) \<and>
    (\<forall>j < length (elements p). display (elements (snd (showActionListener a p)) ! j) =
       (if j = i then toggled_display (display (elements p ! j))
        else if is_action (elements p ! j) \<and> el_id (elements p ! j) \<noteq> a then ''none''
        else display (elements p ! j)))"
proof -
  from assms have i: "i < length (elements p)"
    by (simp add: getElementById_SomeD)
  have "\<forall>j < length (elements p). display (elements (snd (showActionListener a p)) ! j) =
       (if j = i then toggled_display (display (elements p ! j))
        else if is_action (elements p ! j) \<and> el_id (elements p ! j) \<noteq> a then ''none''
        else display (elements p ! j))"
    using i by (simp add: listener_found [OF assms] nth_list_update)
  moreover have "fst (showActionListener a p) = None"
    by (simp add: listener_found [OF assms])
  ultimately show ?thesis
    using listener_display_only by blast
qed

theorem showActionListener_found_spec_witness:
  "fst (showActionListener ''p1'' demo_page) = None \<and>
   display_only demo_page (snd (showActionListener ''p1'' demo_page)) \<and>
   display (elements (snd (showActionListener ''p1'' demo_page)) ! 0) = [] \<and>
   display (elements (snd (showActionListener ''p1'' demo_page)) ! 1) = ''block'' \<and>
   display (elements (snd (showActionListener ''p1'' demo_page)) ! 2) = ''none''"
proof -
  have h: "getElementById ''p1'' demo_page = Some 1"
    by (simp add: demo_simps)
  note r = showActionListener_found_spec [OF h]
  have l: "length (elements demo_page) = 3"
    by (simp add: demo_page_def)
  from r [THEN conjunct2, THEN conjunct2] have "\<forall>j < 3. display (elements (snd (showActionListener ''p1'' demo_page)) ! j) =
       (if j = 1 then toggled_display (display (elements demo_page ! j))
        else if is_action (elements demo_page ! j) \<and> el_id (elements demo_page ! j) \<noteq> ''p1'' then ''none''
        else display (elements demo_page ! j))"
    by (simp only: l)
  then have "display (elements (snd (showActionListener ''p1'' demo_page)) ! 0) = []"
    and "display (elements (snd (showActionListener ''p1'' demo_page)) ! 1) = ''block''"
    and "display (elements (snd (showActionListener ''p1'' demo_page)) ! 2) = ''none''"
    by (simp_all add: demo_simps toggled_display_def)
  with r show ?thesis by blast
qed

text \<open>
  C5. The pipeline of \<open>hideAllOtherActions\<close> (a snapshot of the elements of class
  \<open>action\<close> with \<open>Array.from\<close>, \<open>filter\<close> on the id, \<open>forEach\<close> assigning
  \<open>none\<close>) is the element-wise map that hides exactly the action panels whose id differs
  from \<open>exceptId\<close>; nothing else of the page changes.
\<close>

theorem hideAllOtherActions_pointwise:
  "hideAllOtherActions x p = p\<lparr>elements :=
     map (\<lambda>e. if is_action e \<and> el_id e \<noteq> x then e\<lparr>display := ''none''\<rparr> else e) (elements p)\<rparr>"
  by (simp add: hideAllOtherActions_def fold_set_display Let_def hide_update_each)

text \<open>
  C6. \<open>toggleActionVisibility\<close> fails (the \<open>TypeError\<close> of reading \<open>style\<close> of
  \<open>null\<close>) exactly when no element has the given id, or the id is empty; it never fails
  otherwise.
\<close>

theorem toggleActionVisibility_error_iff:
  "toggleActionVisibility x p = Inl TypeError \<longleftrightarrow>
     x = [] \<or> (\<forall>e \<in> set (elements p). el_id e \<noteq> x)"
  by (cases "getElementById x p")
     (simp_all add: toggleActionVisibility_def getElementById_None_iff [symmetric])

theorem toggleActionVisibility_error_iff_witness:
  "toggleActionVisibility ''p9'' demo_page = Inl TypeError"
  using toggleActionVisibility_error_iff [of "''p9''" demo_page]
  by (simp add: demo_simps)

text \<open>
  C7. When the panel a listener controls does not exist, the listener reports the
  \<open>TypeError\<close> of \<open>toggleActionVisibility\<close>, but \<open>hideAllOtherActions\<close> has already
  run: every action panel is hidden and stays so. The click is not without effect.
\<close>

theorem showActionListener_missing_hides_all:
  assumes "a \<noteq> []" and "\<forall>e \<in> set (elements p). el_id e \<noteq> a"
  shows "showActionListener a p = (Some TypeError,
    p\<lparr>elements := map (\<lambda>e. if is_action e then e\<lparr>display := ''none''\<rparr> else e) (elements p)\<rparr>)"
proof -
  from assms have "getElementById a p = None"
    by (simp add: getElementById_None_iff)
  moreover from assms(2) have
    "map (\<lambda>e. if is_action e \<and> el_id e \<noteq> a then e\<lparr>display := ''none''\<rparr> else e) (elements p) =
     map (\<lambda>e. if is_action e then e\<lparr>display := ''none''\<rparr> else e) (elements p)"
    by (intro map_cong) auto
  ultimately show ?thesis
    by (simp add: listener_missing hideAllOtherActions_def fold_set_display Let_def hide_update_each)
qed

theorem showActionListener_missing_hides_all_witness:
  "showActionListener ''p9'' demo_page = (Some TypeError,
     demo_page\<lparr>elements := map (\<lambda>e. if is_action e then e\<lparr>display := ''none''\<rparr> else e)
       (elements demo_page)\<rparr>)"
proof -
  have h1: "''p9'' \<noteq> []" by simp
  have h2: "\<forall>e \<in> set (elements demo_page). el_id e \<noteq> ''p9''" by (simp add: demo_simps)
  from showActionListener_missing_hides_all [OF h1 h2] show ?thesis .
qed



text \<open>
  C9. \<open>registerShowActionOnClick\<close> with a button id that matches no element returns
  without any effect: no listener, no function object, no change to the page.
\<close>

theorem registerShowActionOnClick_missing:
  assumes "getElementById b p = None"
  shows "registerShowActionOnClick b a p = p"
  using assms by (simp add: registerShowActionOnClick_def)

theorem registerShowActionOnClick_missing_witness:
  "getElementById ''missingButton'' demo_page = None \<and>
   registerShowActionOnClick ''missingButton'' ''anyAction'' demo_page = demo_page"
proof -
  have h: "getElementById ''missingButton'' demo_page = None" by (simp add: demo_simps)
  from h registerShowActionOnClick_missing [OF h] show ?thesis by blast
qed

text \<open>
  C10. With an existing button, and every stored closure older than the next function
  object (which every reachable page satisfies), a registration appends exactly one new
  non-capturing \<open>click\<close> listener, a fresh closure that captured \<open>actionId\<close>, to the
  first button with that id, and changes nothing else: \<open>addEventListener\<close>'s
  de-duplication never applies, because each call creates a new function object.
\<close>

theorem registerShowActionOnClick_appends:
  assumes "getElementById b p = Some i" and "fresh_closures p"
  shows "registerShowActionOnClick b a p = p\<lparr>
    elements := (elements p)[i := (elements p ! i)\<lparr>el_listeners := el_listeners (elements p ! i) @
      [\<lparr>l_type = ''click'', l_callback = ShowAction (fn_count p) a, l_capture = False\<rparr>]\<rparr>],
    fn_count := Suc (fn_count p)\<rparr>"
proof -
  from assms(1) have i: "i < length (elements p)"
    by (simp add: getElementById_SomeD)
  then have "elements p ! i \<in> set (elements p)" by simp
  with assms(2) have "\<lparr>l_type = ''click'', l_callback = ShowAction (fn_count p) a, l_capture = False\<rparr>
      \<notin> set (el_listeners (elements p ! i))"
    unfolding fresh_closures_def by fastforce
  with assms(1) show ?thesis
    by (simp add: register_found addEventListener_def Let_def)
qed

theorem registerShowActionOnClick_appends_witness:
  "getElementById ''b1'' demo_page = Some 0 \<and> fresh_closures demo_page \<and>
   registerShowActionOnClick ''b1'' ''p1'' demo_page = demo_page\<lparr>
    elements := (elements demo_page)[0 := (elements demo_page ! 0)\<lparr>el_listeners :=
      el_listeners (elements demo_page ! 0) @
      [\<lparr>l_type = ''click'', l_callback = ShowAction (fn_count demo_page) ''p1'', l_capture = False\<rparr>]\<rparr>],
    fn_count := Suc (fn_count demo_page)\<rparr>"
proof -
  have h1: "getElementById ''b1'' demo_page = Some 0" by (simp add: demo_simps)
  have h2: "fresh_closures demo_page" by (simp add: demo_simps fresh_closures_def)
  from h1 h2 registerShowActionOnClick_appends [OF h1 h2] show ?thesis by blast
qed

text \<open>
  C13. \<open>toggleActionVisibility\<close> is public, and called directly it does not keep
  the panels exclusive: on a page with distinct action ids where panel \<open>a\<close> is open,
  toggling another action panel \<open>b\<close> that is not open leaves both open.
\<close>

theorem toggleActionVisibility_direct_breaks_exclusion:
  assumes "action_ids_distinct p" and "getElementById b p = Some j" and "is_action (elements p ! j)"
    and "display (elements p ! j) \<noteq> ''block''" and "a \<in> set (open_actions p)" and "a \<noteq> b"
  shows "\<exists>q. toggleActionVisibility b p = Inr q \<and> a \<in> set (open_actions q) \<and> b \<in> set (open_actions q)"
proof -
  from assms(2) have j: "j < length (elements p)" "el_id (elements p ! j) = b"
    by (simp_all add: getElementById_SomeD)
  let ?q = "set_display j ''block'' p"
  have t: "toggleActionVisibility b p = Inr ?q"
    using assms(2,4) by (simp add: toggle_Some toggled_display_def)
  have dq: "action_ids_distinct ?q"
    using assms(1) by (simp add: action_ids_distinct_shape [OF set_display_shape [symmetric]])
  have qj: "elements ?q ! j = (elements p ! j)\<lparr>display := ''block''\<rparr>" "j < length (elements ?q)"
    using j by (simp_all add: set_display_nth_same page_simps)
  have "b \<in> set (open_actions ?q)"
    using open_member_iff [OF dq qj(2)] qj(1) assms(3) j(2) by (simp add: is_action_def)
  moreover obtain e where e: "e \<in> set (elements p)" "is_action e" "display e = ''block''" "el_id e = a"
    using assms(5) by (auto simp: open_actions_def)
  then obtain m where m: "m < length (elements p)" "elements p ! m = e"
    by (auto simp: in_set_conv_nth)
  with e j assms(6) have "m \<noteq> j" by auto
  with m e have "e \<in> set (elements ?q)"
    by (metis set_display_elements length_list_update nth_list_update_neq nth_mem)
  with e have "a \<in> set (open_actions ?q)"
    by (auto simp: open_actions_def)
  ultimately show ?thesis using t by blast
qed

theorem toggleActionVisibility_direct_breaks_exclusion_witness:
  "\<exists>q. toggleActionVisibility ''p1'' demo_page = Inr q \<and> ''p2'' \<in> set (open_actions q) \<and>
     ''p1'' \<in> set (open_actions q)"
proof -
  have h1: "action_ids_distinct demo_page" by (simp add: demo_simps)
  have h2: "getElementById ''p1'' demo_page = Some 1" by (simp add: demo_simps)
  have h3: "is_action (elements demo_page ! 1)" by (simp add: demo_simps)
  have h4: "display (elements demo_page ! 1) \<noteq> ''block''" by (simp add: demo_simps)
  have h5: "''p2'' \<in> set (open_actions demo_page)" by (simp add: demo_simps)
  have h6: "''p2'' \<noteq> ''p1''" by simp
  from toggleActionVisibility_direct_breaks_exclusion [OF h1 h2 h3 h4 h5 h6] show ?thesis .
qed

text \<open>
  C16. A listener registered with an empty \<open>actionId\<close> always throws
  (\<open>getElementById('')\<close> is \<open>null\<close>). Before that, \<open>hideAllOtherActions('')\<close> has hidden
  every action panel that has an id, and left the panels without an id as they were.
\<close>

theorem showActionListener_empty_id:
  "showActionListener [] p = (Some TypeError,
     p\<lparr>elements := map (\<lambda>e. if is_action e \<and> el_id e \<noteq> [] then e\<lparr>display := ''none''\<rparr> else e)
       (elements p)\<rparr>)"
proof -
  have "getElementById [] p = None"
    by (simp add: getElementById_def)
  then show ?thesis
    by (simp add: listener_missing hideAllOtherActions_def fold_set_display Let_def hide_update_each)
qed

end
