(* ===== verification/Event_Dispatch.thy ===== *)
theory Event_Dispatch
  imports Actions
begin

text \<open>
  The page at run time: the host's event loop takes one task at a time, in arrival order,
  and runs it to completion. A task is either a call of \<open>registerShowActionOnClick\<close>
  from the page's initialisation code or a user click on an element, which the host
  dispatches to the element's \<open>click\<close> listeners in registration order; an exception
  thrown by one listener is reported and the next listener still runs. \<open>page_step\<close>
  is the same as a relation, and \<open>reachable p0\<close> the pages the loop can reach from the
  loaded page \<open>p0\<close>. The invariants of this theory are proved by rule induction over it,
  and \<open>reachable_iff_run_tasks\<close> shows that the relation and the loop reach the same pages.
\<close>

definition click :: "ptr \<Rightarrow> doc \<Rightarrow> js_error list \<times> doc" where
  "click i p = dispatch_event call_closure ''click'' i p"

datatype task = Register ident ident | Click ptr

fun run_task :: "doc \<Rightarrow> task \<Rightarrow> js_error list \<times> doc" where
  "run_task p (Register b a) = ([], registerShowActionOnClick b a p)"
| "run_task p (Click i) = click i p"

fun run_tasks :: "doc \<Rightarrow> task list \<Rightarrow> js_error list \<times> doc" where
  "run_tasks p [] = ([], p)"
| "run_tasks p (t # ts) =
     (let (errs1, p1) = run_task p t;
          (errs2, p2) = run_tasks p1 ts
      in (errs1 @ errs2, p2))"

fun run_trace :: "doc \<Rightarrow> task list \<Rightarrow> doc list" where
  "run_trace p [] = []"
| "run_trace p (t # ts) = (let q = snd (run_task p t) in q # run_trace q ts)"

inductive page_step :: "doc \<Rightarrow> doc \<Rightarrow> bool" where
  register: "page_step p (registerShowActionOnClick b a p)"
| user_click: "page_step p (snd (click i p))"

inductive reachable :: "doc \<Rightarrow> doc \<Rightarrow> bool" for p0 :: doc where
  init: "reachable p0 p0"
| step: "reachable p0 p \<Longrightarrow> page_step p q \<Longrightarrow> reachable p0 q"

definition listeners_wf :: "doc \<Rightarrow> bool" where
  "listeners_wf p \<longleftrightarrow>
     (\<forall>l \<in> set (all_listeners p).
        l_type l = ''click'' \<and> \<not> l_capture l \<and> closure_fn (l_callback l) < fn_count p) \<and>
     distinct (map (\<lambda>l. closure_fn (l_callback l)) (all_listeners p))"

definition exclusive :: "doc \<Rightarrow> bool" where
  "exclusive p \<longleftrightarrow> action_ids_distinct p \<and> length (open_actions p) \<le> 1"

inductive_cases page_stepE: "page_step p q"

inductive_simps page_step_iff: "page_step p q"

subsection \<open>One step\<close>

lemma call_closure_display_only: "display_only p (snd (call_closure c p))"
  by (cases c) (simp add: listener_display_only)

lemma click_display_only: "display_only p (snd (click i p))"
proof -
  have "\<And>cb q. display_only p q \<Longrightarrow> display_only p (snd (call_closure cb q))"
    using call_closure_display_only display_only_trans by blast
  from dispatch_event_preserves [where P = "display_only p", OF this]
  show ?thesis by (simp add: click_def)
qed

lemma page_step_shape: "page_step p q \<Longrightarrow> dom_shape q = dom_shape p"
  by (erule page_stepE) (simp_all add: register_shape display_only_shape [OF click_display_only])

lemma run_tasks_reachable: "reachable p0 p \<Longrightarrow> reachable p0 (snd (run_tasks p ts))"
proof (induction ts arbitrary: p)
  case Nil
  then show ?case by simp
next
  case (Cons t ts)
  have "page_step p (snd (run_task p t))"
    by (cases t) (auto intro: page_step.intros)
  with Cons.prems have "reachable p0 (snd (run_task p t))"
    by (rule reachable.step)
  then have "reachable p0 (snd (run_tasks (snd (run_task p t)) ts))"
    by (rule Cons.IH)
  then show ?case by (simp add: case_prod_unfold Let_def)
qed

subsection \<open>Invariants of one step\<close>

lemma listeners_wf_display_only: "display_only p q \<Longrightarrow> listeners_wf q = listeners_wf p"
  by (simp add: listeners_wf_def all_listeners_cong [OF display_only_listeners] display_only_fn_count)

lemma listeners_wf_fresh: "listeners_wf p \<Longrightarrow> fresh_closures p"
  by (auto simp: listeners_wf_def fresh_closures_def all_listeners_def)

lemma register_listeners_wf:
  assumes wf: "listeners_wf p"
  shows "listeners_wf (registerShowActionOnClick b a p)"
proof (cases "getElementById b p")
  case None
  with wf show ?thesis by (simp add: register_missing)
next
  case (Some i)
  let ?n = "fn_count p"
  let ?l = "\<lparr>l_type = ''click'', l_callback = ShowAction ?n a, l_capture = False\<rparr>"
  let ?p' = "registerShowActionOnClick b a p"
  let ?L = "all_listeners p"
  let ?fid = "\<lambda>l :: closure listener. closure_fn (l_callback l)"
  define add where "add = (if ?l \<in> set (el_listeners (elements p ! i)) then [] else [?l])"
  from Some have i: "i < length (elements (p\<lparr>fn_count := Suc ?n\<rparr>))"
    by (simp add: getElementById_SomeD)
  have r: "?p' = addEventListener i ''click'' (ShowAction ?n a) (p\<lparr>fn_count := Suc ?n\<rparr>)"
    using Some by (rule register_found)
  have m: "mset (all_listeners ?p') = mset (?L @ add)"
    using addEventListener_all_listeners [OF i, of "''click''" "ShowAction ?n a"]
    by (simp add: r add_def all_listeners_def)
  have cnt: "fn_count ?p' = Suc ?n"
    by (simp add: r addEventListener_fn_count)
  have old: "\<forall>l \<in> set ?L. l_type l = ''click'' \<and> \<not> l_capture l \<and> ?fid l < ?n"
    and dist: "distinct (map ?fid ?L)"
    using wf by (simp_all add: listeners_wf_def)
  have "set (all_listeners ?p') = set (?L @ add)"
    using m by (rule mset_eq_setD)
  with old cnt have bounds: "\<forall>l \<in> set (all_listeners ?p').
      l_type l = ''click'' \<and> \<not> l_capture l \<and> ?fid l < fn_count ?p'"
    by (auto simp: add_def split: if_splits)
  have "mset (map ?fid (all_listeners ?p')) = mset (map ?fid (?L @ add))"
    using m by (simp only: mset_map)
  moreover from old dist have "distinct (map ?fid (?L @ add))"
    by (auto simp: add_def)
  ultimately have "distinct (map ?fid (all_listeners ?p'))"
    using mset_eq_imp_distinct_iff by blast
  with bounds show ?thesis by (simp add: listeners_wf_def)
qed

lemma call_closure_exclusive: "action_ids_distinct p \<Longrightarrow> exclusive (snd (call_closure c p))"
proof (cases c)
  case (ShowAction f a)
  assume d: "action_ids_distinct p"
  let ?q = "snd (showActionListener a p)"
  from d have "distinct (shown_actions ?q)"
    by (simp add: shown_actions_distinct listener_action_ids_distinct)
  moreover have "set (shown_actions ?q) \<subseteq> {a}"
    using listener_shown_ids by blast
  ultimately have "length (shown_actions ?q) \<le> 1"
    by (rule distinct_subset_singleton_length)
  with d ShowAction open_le_shown [of ?q] show ?thesis
    by (simp add: exclusive_def listener_action_ids_distinct)
qed

lemma click_exclusive: "exclusive p \<Longrightarrow> exclusive (snd (click i p))"
proof -
  assume "exclusive p"
  moreover have "\<And>cb q. exclusive q \<Longrightarrow> exclusive (snd (call_closure cb q))"
    by (rule call_closure_exclusive) (simp add: exclusive_def)
  ultimately show ?thesis
    unfolding click_def by (intro dispatch_event_preserves [where P = exclusive])
qed

lemma register_exclusive: "exclusive p \<Longrightarrow> exclusive (registerShowActionOnClick b a p)"
  using panel_views_cong(2) [OF register_shape [symmetric] register_displays [symmetric]]
    action_ids_distinct_shape [OF register_shape [symmetric]]
  by (simp add: exclusive_def)

lemma page_step_invariants:
  assumes "page_step p q"
  shows "dom_shape q = dom_shape p"
    and "listeners_wf p \<Longrightarrow> listeners_wf q"
    and "exclusive p \<Longrightarrow> exclusive q"
  using assms
  by (cases rule: page_step.cases;
      simp add: register_shape display_only_shape [OF click_display_only] register_listeners_wf
        listeners_wf_display_only [OF click_display_only] click_exclusive register_exclusive)+

subsection \<open>Reachable pages\<close>

lemma demo_run_reachable:
  "reachable demo_page (snd (click 0 (registerShowActionOnClick ''b1'' ''p1'' demo_page)))"
  by (rule reachable.step [OF reachable.step [OF reachable.init page_step.register] page_step.user_click])

text \<open>
  C4. Mutual exclusion over whole runs, in the code's own sense of visible (inline
  display \<open>block\<close>, the value \<open>toggleActionVisibility\<close> tests): on a page whose
  action panels have distinct ids and at most one of them \<open>block\<close> when it is loaded
  (for instance none, as when the panels have no inline style), at most one action panel
  is \<open>block\<close> in every page reachable by any interleaving of registrations and clicks.
\<close>

theorem reachable_at_most_one_open:
  assumes "reachable p0 p" and "action_ids_distinct p0" and "length (open_actions p0) \<le> 1"
  shows "length (open_actions p) \<le> 1"
proof -
  from assms(2,3) have "exclusive p0" by (simp add: exclusive_def)
  with assms(1) have "exclusive p"
    by (induction rule: reachable.induct) (auto dest: page_step_invariants(3))
  then show ?thesis by (simp add: exclusive_def)
qed

theorem reachable_at_most_one_open_witness:
  "reachable demo_page (snd (click 0 (registerShowActionOnClick ''b1'' ''p1'' demo_page))) \<and>
   action_ids_distinct demo_page \<and> length (open_actions demo_page) \<le> 1 \<and>
   length (open_actions (snd (click 0 (registerShowActionOnClick ''b1'' ''p1'' demo_page)))) \<le> 1"
proof -
  have h2: "action_ids_distinct demo_page" by (simp add: demo_simps)
  have h3: "length (open_actions demo_page) \<le> 1" by (simp add: demo_simps)
  from demo_run_reachable h2 h3 reachable_at_most_one_open [OF demo_run_reachable h2 h3]
  show ?thesis by blast
qed

text \<open>
  C11. Listener well-formedness is invariant: when the loaded page has none of the
  controller's listeners yet (or only well-formed ones), every listener of a reachable
  page is a non-capturing \<open>click\<close> listener whose function object was allocated
  earlier, and no function object is registered twice.
\<close>

theorem reachable_listeners_wf:
  assumes "reachable p0 p" and "listeners_wf p0"
  shows "listeners_wf p"
  using assms by (induction rule: reachable.induct) (auto dest: page_step_invariants(2))

theorem reachable_listeners_wf_witness:
  "reachable demo_page (snd (click 0 (registerShowActionOnClick ''b1'' ''p1'' demo_page))) \<and>
   listeners_wf demo_page \<and>
   listeners_wf (snd (click 0 (registerShowActionOnClick ''b1'' ''p1'' demo_page)))"
proof -
  have h: "listeners_wf demo_page"
    by (simp add: demo_page_def listeners_wf_def all_listeners_def)
  from demo_run_reachable h reachable_listeners_wf [OF demo_run_reachable h] show ?thesis by blast
qed

subsection \<open>Errors and the event loop\<close>

lemma listener_error:
  "fst (showActionListener a p) = (if getElementById a p = None then Some TypeError else None)"
  by (cases "getElementById a p") (simp_all add: listener_found listener_missing)

lemma invoke_listeners_errors:
  "fst (invoke_listeners call_closure ''click'' ls p) =
     replicate (length (filter (\<lambda>l. l_type l = ''click'' \<and> getElementById (closure_action (l_callback l)) p = None) ls))
       TypeError"
proof (induction ls arbitrary: p)
  case Nil
  then show ?case by simp
next
  case (Cons l ls)
  obtain f a where c: "l_callback l = ShowAction f a"
    by (cases "l_callback l")
  let ?q = "snd (showActionListener a p)"
  have "dom_shape ?q = dom_shape p"
    by (rule display_only_shape [OF listener_display_only])
  then have "filter (\<lambda>l. l_type l = ''click'' \<and> getElementById (closure_action (l_callback l)) ?q = None) ls =
      filter (\<lambda>l. l_type l = ''click'' \<and> getElementById (closure_action (l_callback l)) p = None) ls"
    using getElementById_shape by (metis (no_types, lifting))
  with Cons.IH [of ?q] Cons.IH [of p] c show ?case
    by (simp add: case_prod_unfold Let_def listener_error)
qed

text \<open>
  C14. Error isolation in a dispatch: a click on element \<open>k\<close> reports one
  \<open>TypeError\<close> for each of \<open>k\<close>'s click listeners whose panel does not exist, and
  nothing else; a listener that throws does not stop the listeners after it.
\<close>

theorem click_reported_errors:
  assumes "k < length (elements p)"
  shows "fst (click k p) =
    replicate (length (filter (\<lambda>l. l_type l = ''click'' \<and> getElementById (closure_action (l_callback l)) p = None)
      (el_listeners (elements p ! k)))) TypeError"
  using assms by (simp add: click_def dispatch_event_def invoke_listeners_errors)

theorem click_reported_errors_witness:
  "fst (click 0 (registerShowActionOnClick ''b1'' ''p7'' (registerShowActionOnClick ''b1'' ''p1'' demo_page))) =
   [TypeError]"
proof -
  let ?p = "registerShowActionOnClick ''b1'' ''p7'' (registerShowActionOnClick ''b1'' ''p1'' demo_page)"
  have r: "?p = addEventListener 0 ''click'' (ShowAction 1 ''p7'')
      (addEventListener 0 ''click'' (ShowAction 0 ''p1'') (demo_page\<lparr>fn_count := 1\<rparr>)\<lparr>fn_count := 2\<rparr>)"
    by (simp add: registerShowActionOnClick_def new_function_def demo_simps addEventListener_def)
  have h: "0 < length (elements ?p)"
    unfolding r by (simp add: demo_simps addEventListener_def)
  from click_reported_errors [OF h] show ?thesis
    unfolding r by (simp add: demo_simps addEventListener_def)
qed

lemma run_tasks_append:
  "run_tasks p (ts1 @ ts2) =
    (let (errs1, p1) = run_tasks p ts1; (errs2, p2) = run_tasks p1 ts2 in (errs1 @ errs2, p2))"
  by (induction ts1 arbitrary: p) (auto simp: case_prod_unfold Let_def)

lemma run_tasks_snoc: "snd (run_tasks p (ts @ [t])) = snd (run_task (snd (run_tasks p ts)) t)"
  by (induction ts arbitrary: p) (simp_all add: case_prod_unfold Let_def)

lemma page_step_run_task: "page_step p q \<longleftrightarrow> (\<exists>t. q = snd (run_task p t))"
proof
  assume "page_step p q"
  then show "\<exists>t. q = snd (run_task p t)"
    unfolding page_step_iff by (metis run_task.simps snd_conv)
next
  assume "\<exists>t. q = snd (run_task p t)"
  then obtain t where "q = snd (run_task p t)" by blast
  then show "page_step p q"
    by (cases t) (simp_all add: page_step_iff, blast+)
qed

text \<open>
  The event loop and the step relation describe the same pages: a page is
  reachable from the loaded page \<open>p0\<close> exactly when some list of registrations and
  clicks, run by the event loop from \<open>p0\<close>, ends in it.
\<close>

lemma reachable_iff_run_tasks: "reachable p0 p \<longleftrightarrow> (\<exists>ts. p = snd (run_tasks p0 ts))"
proof
  assume "reachable p0 p"
  then show "\<exists>ts. p = snd (run_tasks p0 ts)"
  proof (induction rule: reachable.induct)
    case init
    have "p0 = snd (run_tasks p0 [])" by simp
    then show ?case by blast
  next
    case (step p q)
    from step.IH obtain ts where ts: "p = snd (run_tasks p0 ts)" by blast
    from step.hyps(2) obtain t where "q = snd (run_task p t)"
      by (auto simp: page_step_run_task)
    with ts have "q = snd (run_tasks p0 (ts @ [t]))"
      by (simp add: run_tasks_snoc)
    then show ?case by blast
  qed
next
  assume "\<exists>ts. p = snd (run_tasks p0 ts)"
  then obtain ts where "p = snd (run_tasks p0 ts)" by blast
  then show "reachable p0 p"
    using run_tasks_reachable [OF reachable.init] by simp
qed

end
