(* ===== verification/Panel_Spec.thy ===== *)
theory Panel_Spec
  imports Event_Dispatch
begin

text \<open>
  The contract of the controller, stated over the action panels alone. The panels that
  are open (inline display \<open>block\<close>, the code's notion of visible) form a list of
  ids. A click on the trigger of panel \<open>a\<close> closes \<open>a\<close> if it was open and otherwise
  opens \<open>a\<close> and closes every other panel: that is \<open>abs_click\<close>.
  \<open>listener_refines_abs_click\<close> shows that one run of the listener of
  \<open>hideandshowactions.js\<close> implements this step on the abstraction \<open>open_actions\<close>.
  \<open>click_refines_abs_click\<close> lifts it to a whole click, which runs the steps of the
  button's listeners in registration order. The case of a pair registered twice
  follows.
\<close>

definition abs_click :: "ident \<Rightarrow> ident list \<Rightarrow> ident list" where
  "abs_click a opened = (if a \<in> set opened then [] else [a])"

definition click_targets :: "closure listener list \<Rightarrow> ident list" where
  "click_targets ls = map (\<lambda>l. closure_action (l_callback l)) (filter (\<lambda>l. l_type l = ''click'') ls)"

definition targets_action :: "doc \<Rightarrow> closure \<Rightarrow> bool" where
  "targets_action p c =
     (case getElementById (closure_action c) p of None \<Rightarrow> False | Some i \<Rightarrow> is_action (elements p ! i))"

lemma targets_action_shape:
  assumes "dom_shape p = dom_shape q"
  shows "targets_action q c = targets_action p c"
proof (cases "getElementById (closure_action c) p")
  case None
  with getElementById_shape [OF assms] show ?thesis
    by (simp add: targets_action_def)
next
  case (Some i)
  then have "i < length (elements p)" by (simp add: getElementById_SomeD)
  with Some getElementById_shape [OF assms] shape_nth(2) [OF assms] show ?thesis
    by (simp add: targets_action_def is_action_def)
qed

lemma listener_refines_abs_click:
  assumes "action_ids_distinct p" and "getElementById a p = Some i" and "is_action (elements p ! i)"
  shows "open_actions (snd (showActionListener a p)) = abs_click a (open_actions p)"
proof -
  let ?q = "snd (showActionListener a p)"
  from assms(2) have i: "i < length (elements p)" "el_id (elements p ! i) = a"
    by (simp_all add: getElementById_SomeD)
  have dq: "action_ids_distinct ?q"
    using assms(1) by (simp add: listener_action_ids_distinct)
  have qi: "elements ?q ! i = (elements p ! i)\<lparr>display := toggled_display (display (elements p ! i))\<rparr>"
    and lq: "i < length (elements ?q)"
    using i by (simp_all add: listener_found [OF assms(2)])
  have "set (open_actions ?q) \<subseteq> {a}"
    using open_subset_shown listener_shown_ids by blast
  with open_actions_distinct [OF dq]
  have cases: "open_actions ?q = [] \<or> open_actions ?q = [a]"
    by (rule distinct_subset_singleton_cases)
  have aq: "is_action (elements ?q ! i)" "el_id (elements ?q ! i) = a"
    using qi assms(3) i(2) by (simp_all add: is_action_def)
  have "a \<in> set (open_actions ?q) \<longleftrightarrow> display (elements ?q ! i) = ''block''"
    by (rule open_member_iff [OF dq lq aq])
  also have "\<dots> \<longleftrightarrow> display (elements p ! i) \<noteq> ''block''"
    by (simp add: qi toggled_display_def)
  also have "\<dots> \<longleftrightarrow> a \<notin> set (open_actions p)"
    using open_member_iff [OF assms(1) i(1) assms(3) i(2)] by blast
  finally have "a \<in> set (open_actions ?q) \<longleftrightarrow> a \<notin> set (open_actions p)" .
  with cases show ?thesis
    by (auto simp: abs_click_def)
qed

lemma invoke_listeners_open:
  assumes "action_ids_distinct p"
    and "\<forall>l \<in> set ls. l_type l = ''click'' \<longrightarrow> targets_action p (l_callback l)"
  shows "open_actions (snd (invoke_listeners call_closure ''click'' ls p)) =
    fold abs_click (click_targets ls) (open_actions p)"
  using assms
proof (induction ls arbitrary: p)
  case Nil
  then show ?case by (simp add: click_targets_def)
next
  case (Cons l ls)
  show ?case
  proof (cases "l_type l = ''click''")
    case False
    with Cons show ?thesis by (simp add: click_targets_def)
  next
    case True
    obtain f a where c: "l_callback l = ShowAction f a"
      by (cases "l_callback l")
    let ?q = "snd (showActionListener a p)"
    from Cons.prems(2) True c obtain i where
      i: "getElementById a p = Some i" "is_action (elements p ! i)"
      by (auto simp: targets_action_def split: option.splits)
    have step: "open_actions ?q = abs_click a (open_actions p)"
      by (rule listener_refines_abs_click [OF Cons.prems(1) i])
    have d: "action_ids_distinct ?q"
      using Cons.prems(1) by (simp add: listener_action_ids_distinct)
    have "dom_shape ?q = dom_shape p"
      by (rule display_only_shape [OF listener_display_only])
    with Cons.prems(2) have t: "\<forall>l \<in> set ls. l_type l = ''click'' \<longrightarrow> targets_action ?q (l_callback l)"
      using targets_action_shape by (metis list.set_intros(2))
    from Cons.IH [OF d t] step True c show ?thesis
      by (simp add: click_targets_def case_prod_unfold Let_def)
  qed
qed

text \<open>
  C3. Refinement of a whole click: when the action panels have distinct ids and every
  \<open>click\<close> listener of element \<open>k\<close> was registered for an existing action panel, the
  open panels after the host has dispatched a click to \<open>k\<close> are obtained from the open
  panels before by the abstract steps \<open>abs_click\<close> for the listeners' \<open>actionId\<close>s, in
  registration order.
\<close>

theorem click_refines_abs_click:
  assumes "action_ids_distinct p" and "k < length (elements p)"
    and "\<forall>l \<in> set (el_listeners (elements p ! k)). l_type l = ''click'' \<longrightarrow> targets_action p (l_callback l)"
  shows "open_actions (snd (click k p)) =
    fold abs_click (click_targets (el_listeners (elements p ! k))) (open_actions p)"
  using assms invoke_listeners_open [OF assms(1) assms(3)]
  by (simp add: click_def dispatch_event_def)

theorem click_refines_abs_click_witness:
  "open_actions (snd (click 0 (registerShowActionOnClick ''b1'' ''p1'' demo_page))) =
    fold abs_click (click_targets (el_listeners (elements (registerShowActionOnClick ''b1'' ''p1'' demo_page) ! 0)))
      (open_actions (registerShowActionOnClick ''b1'' ''p1'' demo_page))"
proof -
  let ?p = "registerShowActionOnClick ''b1'' ''p1'' demo_page"
  have r: "?p = addEventListener 0 ''click'' (ShowAction 0 ''p1'') (demo_page\<lparr>fn_count := 1\<rparr>)"
    by (simp add: register_found demo_simps)
  have h1: "action_ids_distinct ?p"
    unfolding r by (simp add: demo_simps addEventListener_def)
  have h2: "0 < length (elements ?p)"
    unfolding r by (simp add: demo_simps addEventListener_def)
  have h3: "\<forall>l \<in> set (el_listeners (elements ?p ! 0)). l_type l = ''click'' \<longrightarrow> targets_action ?p (l_callback l)"
    unfolding r by (simp add: demo_simps addEventListener_def targets_action_def)
  from click_refines_abs_click [OF h1 h2 h3] show ?thesis .
qed

text \<open>
  C12. Registering the same button and panel twice installs two listeners (each call
  creates a new function object), so one click runs the pair hide/toggle twice: every
  other panel is closed and panel \<open>a\<close> is open afterwards exactly when it was open
  before. Such a button never changes whether its own panel is open.
\<close>

theorem double_registration_click:
  assumes "action_ids_distinct p" and "getElementById b p = Some k" and "el_listeners (elements p ! k) = []"
    and "getElementById a p = Some i" and "is_action (elements p ! i)"
  shows "open_actions (snd (click k (registerShowActionOnClick b a (registerShowActionOnClick b a p)))) =
    (if a \<in> set (open_actions p) then [a] else [])"
proof -
  let ?p1 = "registerShowActionOnClick b a p"
  let ?p2 = "registerShowActionOnClick b a ?p1"
  have s1: "dom_shape ?p1 = dom_shape p" by (rule register_shape)
  have s2: "dom_shape ?p2 = dom_shape p" using s1 by (simp add: register_shape)
  have k1: "getElementById b ?p1 = Some k"
    using assms(2) getElementById_shape [OF s1] by simp
  have k: "k < length (elements ?p2)"
    using assms(2) length_shape [OF s2] by (simp add: getElementById_SomeD)
  have c1: "fn_count ?p1 = Suc (fn_count p)"
    by (rule register_fn_count [OF assms(2)])
  have targets: "click_targets (el_listeners (elements ?p2 ! k)) = [a, a]"
    using register_listeners_at [OF k1] register_listeners_at [OF assms(2)] assms(3) c1
    by (simp add: click_targets_def)
  have ta: "targets_action ?p2 (ShowAction n a)" for n
  proof -
    have "targets_action p (ShowAction n a)"
      using assms(4,5) by (simp add: targets_action_def)
    then show ?thesis
      using targets_action_shape [OF s2 [symmetric], of "ShowAction n a"] by simp
  qed
  have all: "\<forall>l \<in> set (el_listeners (elements ?p2 ! k)). l_type l = ''click'' \<longrightarrow>
      targets_action ?p2 (l_callback l)"
    using register_listeners_at [OF k1] register_listeners_at [OF assms(2)] assms(3) ta
    by auto
  have d2: "action_ids_distinct ?p2"
    using assms(1) action_ids_distinct_shape [OF s2 [symmetric]] by simp
  have o2: "open_actions ?p2 = open_actions p"
    using panel_views_cong(2) [OF s2 [symmetric]] by (simp add: register_displays)
  have "open_actions (snd (click k ?p2)) = fold abs_click [a, a] (open_actions p)"
    using invoke_listeners_open [OF d2 all] k targets o2 by (simp add: click_def dispatch_event_def)
  then show ?thesis
    by (simp add: abs_click_def)
qed

theorem double_registration_click_witness:
  "open_actions (snd (click 0 (registerShowActionOnClick ''b1'' ''p2''
      (registerShowActionOnClick ''b1'' ''p2'' demo_page)))) = [''p2'']"
proof -
  have h1: "action_ids_distinct demo_page" by (simp add: demo_simps)
  have h2: "getElementById ''b1'' demo_page = Some 0" by (simp add: demo_simps)
  have h3: "el_listeners (elements demo_page ! 0) = []" by (simp add: demo_simps)
  have h4: "getElementById ''p2'' demo_page = Some 2" by (simp add: demo_simps)
  have h5: "is_action (elements demo_page ! 2)" by (simp add: demo_simps)
  have "''p2'' \<in> set (open_actions demo_page)" by (simp add: demo_simps)
  with double_registration_click [OF h1 h2 h3 h4 h5] show ?thesis by simp
qed

end
