(* ===== verification/Run_Properties.thy ===== *)
theory Run_Properties
  imports Panel_Spec
begin

text \<open>
  Properties of whole runs of the event loop (\<open>Event_Dispatch.run_tasks\<close> and
  \<open>Event_Dispatch.reachable\<close>) that need the controller and the host together.
  \<^item> Progress: a button whose only click listener is the controller's listener for an
    existing panel opens that panel within two clicks and closes it within two clicks,
    from every reachable page; repeated clicks alternate.
  \<^item> Counting: every function object the registrations allocate becomes exactly one
    listener.
  \<^item> Writes: the controller only ever writes \<open>block\<close> or \<open>none\<close>, and only into action
    panels or into the element that a registered \<open>actionId\<close> names.
\<close>

definition listener_targets :: "doc \<Rightarrow> ident list" where
  "listener_targets p = map (\<lambda>l. closure_action (l_callback l)) (all_listeners p)"

definition written_by :: "ident list \<Rightarrow> 'cb element \<Rightarrow> 'cb element \<Rightarrow> bool" where
  "written_by S e0 e \<longleftrightarrow> display e = display e0 \<or>
     (display e = ''block'' \<or> display e = ''none'') \<and> (is_action e0 \<or> el_id e0 \<in> set S)"

definition display_written :: "ident list \<Rightarrow> 'cb page \<Rightarrow> 'cb page \<Rightarrow> bool" where
  "display_written S p0 p \<longleftrightarrow> list_all2 (written_by S) (elements p0) (elements p)"

text \<open>
  A page that HTML does not allow but browsers render: two action panels share the id
  \<open>p1\<close>; the second is open.
\<close>

definition dup_page :: doc where
  "dup_page = \<lparr>elements = [
     \<lparr>el_id = ''b1'', el_classes = [''btn''], display = [], el_listeners = []\<rparr>,
     \<lparr>el_id = ''p1'', el_classes = [''action''], display = [], el_listeners = []\<rparr>,
     \<lparr>el_id = ''p1'', el_classes = [''action''], display = ''block'', el_listeners = []\<rparr>],
   fn_count = 0\<rparr>"

subsection \<open>Writes of one listener and of one click\<close>

lemma written_by_refl [simp]: "written_by S e e"
  by (simp add: written_by_def)

lemma display_written_refl [simp]: "display_written S p p"
  by (simp add: display_written_def list_all2_refl)

lemma listener_written: "display_written [a] p (snd (showActionListener a p))"
proof (cases "getElementById a p")
  case None
  then show ?thesis
    by (simp add: listener_missing hide_elements display_written_def list_all2_map2 list_all2_refl
        written_by_def)
next
  case (Some i)
  then have i: "i < length (elements p)" "el_id (elements p ! i) = a"
    by (simp_all add: getElementById_SomeD)
  have "written_by [a] (elements p ! j)
      (((map (\<lambda>e. if is_action e \<and> el_id e \<noteq> a then e\<lparr>display := ''none''\<rparr> else e) (elements p))
        [i := (elements p ! i)\<lparr>display := toggled_display (display (elements p ! i))\<rparr>]) ! j)"
    if "j < length (elements p)" for j
    using that i toggled_display_cases [of "display (elements p ! i)"]
    by (cases "j = i") (auto simp: written_by_def)
  with Some show ?thesis
    by (simp add: listener_found display_written_def list_all2_conv_all_nth)
qed

lemma display_written_trans:
  assumes "display_written S p q" and "display_written S q r" and "dom_shape q = dom_shape p"
  shows "display_written S p r"
proof -
  have l: "length (elements q) = length (elements p)" "length (elements r) = length (elements q)"
    using assms(1,2) by (simp_all add: display_written_def list_all2_conv_all_nth)
  have "written_by S (elements p ! j) (elements r ! j)" if j: "j < length (elements p)" for j
  proof -
    have pq: "written_by S (elements p ! j) (elements q ! j)"
      and qr: "written_by S (elements q ! j) (elements r ! j)"
      using assms(1,2) j l by (simp_all add: display_written_def list_all2_conv_all_nth)
    have "el_id (elements q ! j) = el_id (elements p ! j)" "is_action (elements q ! j) = is_action (elements p ! j)"
      using shape_nth [OF assms(3) [symmetric] j] by (simp_all add: is_action_def)
    with pq qr show ?thesis
      by (auto simp: written_by_def)
  qed
  with l show ?thesis
    by (simp add: display_written_def list_all2_conv_all_nth written_by_def)
qed

lemma display_written_mono:
  "display_written S p q \<Longrightarrow> set S \<subseteq> set S' \<Longrightarrow> display_written S' p q"
  unfolding display_written_def
  by (erule list_all2_mono) (auto simp: written_by_def)

lemma click_written: "display_written (listener_targets p) p (snd (click k p))"
proof -
  let ?S = "listener_targets p"
  let ?P = "\<lambda>q. display_only p q \<and> display_written ?S p q"
  have "?P (snd (invoke_listeners call_closure ''click'' (el_listeners (elements p ! k)) p))"
    if k: "k < length (elements p)"
  proof (rule invoke_listeners_preserves_on)
    fix l q
    assume l: "l \<in> set (el_listeners (elements p ! k))" and q: "?P q"
    obtain f a where c: "l_callback l = ShowAction f a"
      by (cases "l_callback l")
    have "a \<in> set ?S"
      using listeners_at_subset_all [OF k] l c by (force simp: listener_targets_def)
    then have "display_written ?S q (snd (showActionListener a q))"
      using listener_written display_written_mono by fastforce
    moreover have "dom_shape q = dom_shape p"
      using q by (simp add: display_only_shape)
    ultimately show "?P (snd (call_closure (l_callback l) q))"
      using q c listener_display_only display_only_trans display_written_trans by fastforce
  qed simp
  then show ?thesis
    by (simp add: click_def dispatch_event_def)
qed

subsection \<open>Registrations and the listener count\<close>

lemma all_listeners_fn_count_update [simp]: "all_listeners (p\<lparr>fn_count := n\<rparr>) = all_listeners p"
  by (simp add: all_listeners_def)

lemma register_listeners_mset:
  "mset (all_listeners (registerShowActionOnClick b a p)) =
     mset (all_listeners p) +
       (case getElementById b p of None \<Rightarrow> {#}
        | Some i \<Rightarrow> if \<lparr>l_type = ''click'', l_callback = ShowAction (fn_count p) a, l_capture = False\<rparr>
                         \<in> set (el_listeners (elements p ! i))
                    then {#} else {#\<lparr>l_type = ''click'', l_callback = ShowAction (fn_count p) a, l_capture = False\<rparr>#})"
proof (cases "getElementById b p")
  case None
  then show ?thesis by (simp add: register_missing)
next
  case (Some i)
  then have "i < length (elements (p\<lparr>fn_count := Suc (fn_count p)\<rparr>))"
    by (simp add: getElementById_SomeD)
  from addEventListener_all_listeners [OF this, of "''click''" "ShowAction (fn_count p) a"] Some
  show ?thesis by (simp add: register_found)
qed

lemma register_listeners_subset:
  "mset (all_listeners p) \<subseteq># mset (all_listeners (registerShowActionOnClick b a p))"
  by (simp add: register_listeners_mset)

lemma register_count:
  assumes "listeners_wf p"
  shows "length (all_listeners (registerShowActionOnClick b a p)) + fn_count p =
    length (all_listeners p) + fn_count (registerShowActionOnClick b a p)"
proof (cases "getElementById b p")
  case None
  then show ?thesis by (simp add: register_missing)
next
  case (Some i)
  let ?l = "\<lparr>l_type = ''click'', l_callback = ShowAction (fn_count p) a, l_capture = False\<rparr>"
  have i: "i < length (elements p)"
    using Some by (simp add: getElementById_SomeD)
  have "?l \<notin> set (all_listeners p)"
    using assms by (auto simp: listeners_wf_def)
  then have "?l \<notin> set (el_listeners (elements p ! i))"
    using listeners_at_subset_all [OF i] by blast
  then have "size (mset (all_listeners (registerShowActionOnClick b a p))) =
      size (mset (all_listeners p) + {#?l#})"
    using register_listeners_mset [of b a p] Some by simp
  with Some show ?thesis
    by (simp add: register_fn_count)
qed

lemma click_listeners: "all_listeners (snd (click k p)) = all_listeners p"
  using display_only_listeners [OF click_display_only [of p k]] by (simp add: all_listeners_def)

lemma click_fn_count: "fn_count (snd (click k p)) = fn_count p"
  by (rule display_only_fn_count [OF click_display_only])

lemma display_written_displays:
  "map display (elements q) = map display (elements p) \<Longrightarrow> display_written S p q"
proof -
  assume m: "map display (elements q) = map display (elements p)"
  then have l: "length (elements q) = length (elements p)"
    by (metis length_map)
  have "display (elements q ! j) = display (elements p ! j)" if "j < length (elements p)" for j
    using m that l by (metis nth_map)
  with l show ?thesis
    by (simp add: display_written_def list_all2_conv_all_nth written_by_def)
qed

subsection \<open>Invariants of reachable pages\<close>

lemma reachable_written_inv:
  assumes "reachable p0 p"
  shows "dom_shape p = dom_shape p0 \<and> display_written (listener_targets p) p0 p \<and>
    mset (all_listeners p0) \<subseteq># mset (all_listeners p)"
  using assms
proof (induction rule: reachable.induct)
  case init
  then show ?case by simp
next
  case (step p q)
  then have IH: "dom_shape p = dom_shape p0" "display_written (listener_targets p) p0 p"
      "mset (all_listeners p0) \<subseteq># mset (all_listeners p)"
    by simp_all
  from step.hyps(2) show ?case
  proof cases
    case (register b a)
    have s: "dom_shape q = dom_shape p"
      using register by (simp add: register_shape)
    have sub: "mset (all_listeners p) \<subseteq># mset (all_listeners q)"
      using register by (simp add: register_listeners_subset)
    then have "set (all_listeners p) \<subseteq> set (all_listeners q)"
      by (metis set_mset_mono set_mset_mset)
    then have "set (listener_targets p) \<subseteq> set (listener_targets q)"
      by (auto simp: listener_targets_def)
    with IH(2) have w0: "display_written (listener_targets q) p0 p"
      by (rule display_written_mono)
    have w1: "display_written (listener_targets q) p q"
      using register by (simp add: display_written_displays register_displays)
    have "display_written (listener_targets q) p0 q"
      by (rule display_written_trans [OF w0 w1 IH(1)])
    moreover have "mset (all_listeners p0) \<subseteq># mset (all_listeners q)"
      using IH(3) sub by (rule subset_mset.order_trans)
    ultimately show ?thesis
      using s IH(1) by simp
  next
    case (user_click k)
    have s: "dom_shape q = dom_shape p"
      using user_click by (simp add: display_only_shape [OF click_display_only])
    have t: "listener_targets q = listener_targets p"
      using user_click by (simp add: listener_targets_def click_listeners)
    have "display_written (listener_targets p) p q"
      using user_click by (simp add: click_written)
    then have "display_written (listener_targets p) p0 q"
      by (rule display_written_trans [OF IH(2) _ IH(1)])
    with IH(1,3) s t user_click show ?thesis
      by (simp add: click_listeners)
  qed
qed

subsection \<open>Clicks on a trigger\<close>

lemma click_targets_member:
  "l \<in> set ls \<Longrightarrow> l_type l = ''click'' \<Longrightarrow> closure_action (l_callback l) \<in> set (click_targets ls)"
  by (auto simp: click_targets_def)

lemma trigger_click_step:
  assumes d: "action_ids_distinct p" and k: "k < length (elements p)"
    and t: "click_targets (el_listeners (elements p ! k)) = [a]"
    and a: "getElementById a p = Some i" "is_action (elements p ! i)"
  shows "open_actions (snd (click k p)) = abs_click a (open_actions p)"
    and "action_ids_distinct (snd (click k p))" and "k < length (elements (snd (click k p)))"
    and "click_targets (el_listeners (elements (snd (click k p)) ! k)) = [a]"
    and "getElementById a (snd (click k p)) = Some i" and "is_action (elements (snd (click k p)) ! i)"
proof -
  let ?q = "snd (click k p)"
  let ?ls = "el_listeners (elements p ! k)"
  have s: "dom_shape ?q = dom_shape p"
    by (rule display_only_shape [OF click_display_only])
  have "targets_action p (l_callback l)" if "l \<in> set ?ls" "l_type l = ''click''" for l
    using click_targets_member [OF that] t a by (simp add: targets_action_def)
  then have all: "\<forall>l \<in> set ?ls. l_type l = ''click'' \<longrightarrow> targets_action p (l_callback l)"
    by blast
  show "open_actions ?q = abs_click a (open_actions p)"
    using invoke_listeners_open [OF d all] k t by (simp add: click_def dispatch_event_def)
  show "action_ids_distinct ?q"
    using d action_ids_distinct_shape [OF s [symmetric]] by simp
  show "k < length (elements ?q)"
    using k length_shape [OF s] by simp
  have "map el_listeners (elements ?q) = map el_listeners (elements p)"
    by (rule display_only_listeners [OF click_display_only])
  then have "el_listeners (elements ?q ! k) = ?ls"
    using k length_shape [OF s] by (metis nth_map)
  with t show "click_targets (el_listeners (elements ?q ! k)) = [a]"
    by simp
  show "getElementById a ?q = Some i"
    using a(1) getElementById_shape [OF s] by simp
  have "i < length (elements p)"
    using a(1) by (simp add: getElementById_SomeD)
  with a(2) shape_nth(2) [OF s [symmetric]] show "is_action (elements ?q ! i)"
    by (simp add: is_action_def)
qed

lemma run_tasks_Click: "snd (run_tasks p (Click k # ts)) = snd (run_tasks (snd (click k p)) ts)"
  by (simp add: case_prod_unfold Let_def)

lemma trigger_within_two_clicks:
  assumes "action_ids_distinct p" and "k < length (elements p)"
    and "click_targets (el_listeners (elements p ! k)) = [a]"
    and "getElementById a p = Some i" and "is_action (elements p ! i)"
  shows "(\<exists>n. n \<in> {1, 2} \<and> open_actions (snd (run_tasks p (replicate n (Click k)))) = [a]) \<and>
    (\<exists>n. n \<in> {1, 2} \<and> open_actions (snd (run_tasks p (replicate n (Click k)))) = [])"
proof -
  let ?q1 = "snd (click k p)"
  let ?q2 = "snd (click k ?q1)"
  note s1 = trigger_click_step [OF assms]
  note s2 = trigger_click_step [OF s1(2-6)]
  have r1: "snd (run_tasks p (replicate 1 (Click k))) = ?q1"
    and r2: "snd (run_tasks p (replicate 2 (Click k))) = ?q2"
    by (simp_all add: numeral_2_eq_2 case_prod_unfold Let_def)
  have "open_actions ?q1 = [a] \<and> open_actions ?q2 = [] \<or> open_actions ?q1 = [] \<and> open_actions ?q2 = [a]"
    using s1(1) s2(1) by (simp add: abs_click_def)
  then show ?thesis
    using r1 r2 by fastforce
qed

subsection \<open>Progress\<close>

text \<open>
  C17. Progress of a trigger: on every page reachable from a loaded page whose action
  panels have distinct ids, a button whose click listeners all belong to the controller
  and were registered for one existing action panel \<open>a\<close> opens \<open>a\<close> as the only open
  panel within at most two clicks, and closes every panel within at most two clicks;
  the pages reached are again reachable.
\<close>

theorem trigger_opens_and_closes:
  assumes "reachable p0 p" and "action_ids_distinct p0" and "k < length (elements p)"
    and "click_targets (el_listeners (elements p ! k)) = [a]"
    and "getElementById a p = Some i" and "is_action (elements p ! i)"
  shows "(\<exists>n. n \<in> {1, 2} \<and> reachable p0 (snd (run_tasks p (replicate n (Click k)))) \<and>
            open_actions (snd (run_tasks p (replicate n (Click k)))) = [a]) \<and>
         (\<exists>n. n \<in> {1, 2} \<and> reachable p0 (snd (run_tasks p (replicate n (Click k)))) \<and>
            open_actions (snd (run_tasks p (replicate n (Click k)))) = [])"
proof -
  have "dom_shape p = dom_shape p0"
    using reachable_written_inv [OF assms(1)] by simp
  with assms(2) have d: "action_ids_distinct p"
    using action_ids_distinct_shape by metis
  have reach: "reachable p0 (snd (run_tasks p (replicate n (Click k))))" for n
    by (rule run_tasks_reachable [OF assms(1)])
  from trigger_within_two_clicks [OF d assms(3-6)] reach show ?thesis
    by blast
qed

theorem trigger_opens_and_closes_witness:
  "reachable demo_page (registerShowActionOnClick ''b1'' ''p1'' demo_page) \<and>
   action_ids_distinct demo_page \<and> 0 < length (elements (registerShowActionOnClick ''b1'' ''p1'' demo_page)) \<and>
   click_targets (el_listeners (elements (registerShowActionOnClick ''b1'' ''p1'' demo_page) ! 0)) = [''p1''] \<and>
   getElementById ''p1'' (registerShowActionOnClick ''b1'' ''p1'' demo_page) = Some 1 \<and>
   is_action (elements (registerShowActionOnClick ''b1'' ''p1'' demo_page) ! 1) \<and>
   (\<exists>n. n \<in> {1, 2} \<and>
      reachable demo_page (snd (run_tasks (registerShowActionOnClick ''b1'' ''p1'' demo_page) (replicate n (Click 0)))) \<and>
      open_actions (snd (run_tasks (registerShowActionOnClick ''b1'' ''p1'' demo_page) (replicate n (Click 0)))) = [''p1'']) \<and>
   (\<exists>n. n \<in> {1, 2} \<and>
      reachable demo_page (snd (run_tasks (registerShowActionOnClick ''b1'' ''p1'' demo_page) (replicate n (Click 0)))) \<and>
      open_actions (snd (run_tasks (registerShowActionOnClick ''b1'' ''p1'' demo_page) (replicate n (Click 0)))) = [])"
proof -
  let ?p = "registerShowActionOnClick ''b1'' ''p1'' demo_page"
  have r: "?p = addEventListener 0 ''click'' (ShowAction 0 ''p1'') (demo_page\<lparr>fn_count := 1\<rparr>)"
    by (simp add: register_found demo_simps)
  have h1: "reachable demo_page ?p"
    by (rule reachable.step [OF reachable.init page_step.register])
  have h2: "action_ids_distinct demo_page" by (simp add: demo_simps)
  have h3: "0 < length (elements ?p)"
    unfolding r by (simp add: demo_simps addEventListener_def)
  have h4: "click_targets (el_listeners (elements ?p ! 0)) = [''p1'']"
    unfolding r by (simp add: demo_simps addEventListener_def click_targets_def)
  have h5: "getElementById ''p1'' ?p = Some 1"
    unfolding r by (simp add: demo_simps addEventListener_def)
  have h6: "is_action (elements ?p ! 1)"
    unfolding r by (simp add: demo_simps addEventListener_def)
  from h1 h2 h3 h4 h5 h6 trigger_opens_and_closes [OF h1 h2 h3 h4 h5 h6] show ?thesis
    by blast
qed

text \<open>
  C18. Repeated clicks on such a trigger alternate: after \<open>n + 1\<close> clicks panel \<open>a\<close>
  is the only open panel when \<open>n\<close> is odd and \<open>a\<close> was open before, or \<open>n\<close> is even
  and \<open>a\<close> was not; otherwise no panel is open.
\<close>

theorem trigger_clicks_alternate:
  assumes "action_ids_distinct p" and "k < length (elements p)"
    and "click_targets (el_listeners (elements p ! k)) = [a]"
    and "getElementById a p = Some i" and "is_action (elements p ! i)"
  shows "open_actions (snd (run_tasks p (replicate (Suc n) (Click k)))) =
    (if odd n \<longleftrightarrow> a \<in> set (open_actions p) then [a] else [])"
  using assms
proof (induction n arbitrary: p)
  case 0
  from trigger_click_step(1) [OF 0] show ?case
    by (simp add: abs_click_def case_prod_unfold Let_def)
next
  case (Suc n)
  note s = trigger_click_step [OF Suc.prems]
  have "open_actions (snd (run_tasks (snd (click k p)) (replicate (Suc n) (Click k)))) =
      (if odd n \<longleftrightarrow> a \<in> set (open_actions (snd (click k p))) then [a] else [])"
    by (rule Suc.IH [OF s(2-6)])
  moreover have "a \<in> set (open_actions (snd (click k p))) \<longleftrightarrow> a \<notin> set (open_actions p)"
    using s(1) by (simp add: abs_click_def)
  ultimately show ?case
    by (simp only: replicate_Suc run_tasks_Click) auto
qed

theorem trigger_clicks_alternate_witness:
  "open_actions (snd (run_tasks (registerShowActionOnClick ''b1'' ''p2'' demo_page) (replicate 3 (Click 0)))) = []"
proof -
  let ?p = "registerShowActionOnClick ''b1'' ''p2'' demo_page"
  have r: "?p = addEventListener 0 ''click'' (ShowAction 0 ''p2'') (demo_page\<lparr>fn_count := 1\<rparr>)"
    by (simp add: register_found demo_simps)
  have h1: "action_ids_distinct ?p"
    unfolding r by (simp add: demo_simps addEventListener_def)
  have h2: "0 < length (elements ?p)"
    unfolding r by (simp add: demo_simps addEventListener_def)
  have h3: "click_targets (el_listeners (elements ?p ! 0)) = [''p2'']"
    unfolding r by (simp add: demo_simps addEventListener_def click_targets_def)
  have h4: "getElementById ''p2'' ?p = Some 2"
    unfolding r by (simp add: demo_simps addEventListener_def)
  have h5: "is_action (elements ?p ! 2)"
    unfolding r by (simp add: demo_simps addEventListener_def)
  have o: "''p2'' \<in> set (open_actions ?p)"
    unfolding r by (simp add: demo_simps addEventListener_def)
  from trigger_clicks_alternate [OF h1 h2 h3 h4 h5, of 2] o show ?thesis
    by (simp add: numeral_3_eq_3)
qed

subsection \<open>What the controller writes\<close>

text \<open>
  C19. Where and what the controller writes: on every reachable page, each element's
  inline display is either the one the page was loaded with, or it is \<open>block\<close> or
  \<open>none\<close> and the element is an action panel or has the id that some registered
  listener captured as its \<open>actionId\<close>.
\<close>

theorem reachable_display_written:
  assumes "reachable p0 p"
  shows "display_written (listener_targets p) p0 p"
  using reachable_written_inv [OF assms] by simp

theorem reachable_display_written_witness:
  "reachable demo_page (snd (click 0 (registerShowActionOnClick ''b1'' ''p1'' demo_page))) \<and>
   display_written (listener_targets (snd (click 0 (registerShowActionOnClick ''b1'' ''p1'' demo_page))))
     demo_page (snd (click 0 (registerShowActionOnClick ''b1'' ''p1'' demo_page)))"
  using demo_run_reachable reachable_display_written [OF demo_run_reachable] by blast

subsection \<open>Counting\<close>

text \<open>
  C20. Function objects and listeners: when the loaded page's listeners are
  well-formed, the number of listeners on a reachable page exceeds the number on the
  loaded page by exactly the number of function objects allocated in between. Every
  registration that creates a listener function installs it, and the host's
  de-duplication never drops one.
\<close>

theorem reachable_listener_count:
  assumes "reachable p0 p" and "listeners_wf p0"
  shows "length (all_listeners p) + fn_count p0 = length (all_listeners p0) + fn_count p"
proof -
  from assms(1) have "listeners_wf p \<and>
      length (all_listeners p) + fn_count p0 = length (all_listeners p0) + fn_count p"
  proof (induction rule: reachable.induct)
    case init
    with assms(2) show ?case by simp
  next
    case (step p q)
    then have wf: "listeners_wf p"
      and c: "length (all_listeners p) + fn_count p0 = length (all_listeners p0) + fn_count p"
      by simp_all
    have "listeners_wf q"
      by (rule page_step_invariants(2) [OF step.hyps(2) wf])
    moreover from step.hyps(2)
    have "length (all_listeners q) + fn_count p = length (all_listeners p) + fn_count q"
      by cases (simp_all add: register_count [OF wf] click_listeners click_fn_count)
    ultimately show ?case
      using c by simp
  qed
  then show ?thesis by simp
qed

theorem reachable_listener_count_witness:
  "listeners_wf demo_page \<and>
   length (all_listeners (snd (click 0 (registerShowActionOnClick ''b1'' ''p1'' demo_page)))) + fn_count demo_page =
   length (all_listeners demo_page) + fn_count (snd (click 0 (registerShowActionOnClick ''b1'' ''p1'' demo_page)))"
proof -
  have h: "listeners_wf demo_page"
    by (simp add: demo_page_def listeners_wf_def all_listeners_def)
  from h reachable_listener_count [OF demo_run_reachable h] show ?thesis by blast
qed

subsection \<open>A trigger aimed at an element that is not a panel\<close>

text \<open>
  C21. Nothing checks that the \<open>actionId\<close> of a registration names an action panel.
  When it names an element that is not one (another button, say), and no action panel
  has that id, the listener runs without error: it closes every action panel and then
  toggles that element's inline display between \<open>block\<close> and \<open>none\<close> as if it were a
  panel.
\<close>

theorem showActionListener_nonpanel_target:
  assumes "getElementById a p = Some i" and "\<not> is_action (elements p ! i)"
    and "a \<notin> set (map el_id (filter is_action (elements p)))"
  shows "fst (showActionListener a p) = None \<and> shown_actions (snd (showActionListener a p)) = [] \<and>
    display (elements (snd (showActionListener a p)) ! i) = toggled_display (display (elements p ! i))"
proof -
  let ?hide = "map (\<lambda>e. if is_action e \<and> el_id e \<noteq> a then e\<lparr>display := ''none''\<rparr> else e) (elements p)"
  let ?t = "(elements p ! i)\<lparr>display := toggled_display (display (elements p ! i))\<rparr>"
  have i: "i < length (elements p)"
    using assms(1) by (simp add: getElementById_SomeD)
  have "\<not> (is_action e \<and> display e \<noteq> ''none'')" if e: "e \<in> set (?hide[i := ?t])" for e
  proof -
    from e have "e \<in> insert ?t (set ?hide)"
      by (rule set_mp [OF set_update_subset_insert])
    with assms(2,3) show ?thesis
      by (auto simp: is_action_def)
  qed
  then have "shown_actions (snd (showActionListener a p)) = []"
    using assms(1) by (simp add: listener_found shown_actions_def filter_empty_conv)
  with assms(1) i show ?thesis
    by (simp add: listener_found)
qed

theorem showActionListener_nonpanel_target_witness:
  "fst (showActionListener ''b1'' demo_page) = None \<and> shown_actions (snd (showActionListener ''b1'' demo_page)) = [] \<and>
   display (elements (snd (showActionListener ''b1'' demo_page)) ! 0) = ''block''"
proof -
  have h1: "getElementById ''b1'' demo_page = Some 0" by (simp add: demo_simps)
  have h2: "\<not> is_action (elements demo_page ! 0)" by (simp add: demo_simps)
  have h3: "''b1'' \<notin> set (map el_id (filter is_action (elements demo_page)))" by (simp add: demo_simps)
  from showActionListener_nonpanel_target [OF h1 h2 h3] show ?thesis
    by (simp add: demo_page_def toggled_display_def)
qed

subsection \<open>Duplicate ids\<close>

text \<open>
  C23. Later duplicates of the \<open>actionId\<close> are left alone. When an element \<open>j\<close>
  carries the id \<open>a\<close> but \<open>getElementById\<close> finds another element \<open>i\<close> first, the
  listener for \<open>a\<close> does not change \<open>j\<close>'s display. The filter of line 3 spares \<open>j\<close>
  because its id is \<open>a\<close>, and the toggle goes to \<open>i\<close>. So on a page where two panels
  share an id, one click can leave both open.
\<close>

theorem showActionListener_duplicate_untouched:
  assumes "getElementById a p = Some i" and "j < length (elements p)" and "j \<noteq> i"
    and "el_id (elements p ! j) = a"
  shows "display (elements (snd (showActionListener a p)) ! j) = display (elements p ! j)"
  using assms by (simp add: listener_found)

theorem showActionListener_duplicate_untouched_witness:
  "display (elements (snd (showActionListener ''p1'' dup_page)) ! 2) = ''block'' \<and>
   open_actions (snd (showActionListener ''p1'' dup_page)) = [''p1'', ''p1'']"
proof -
  have h1: "getElementById ''p1'' dup_page = Some 1"
    by (simp add: dup_page_def getElementById_def)
  have h2: "2 < length (elements dup_page)" by (simp add: dup_page_def)
  have "display (elements (snd (showActionListener ''p1'' dup_page)) ! 2) = display (elements dup_page ! 2)"
    by (rule showActionListener_duplicate_untouched [OF h1 h2]) (simp_all add: dup_page_def)
  moreover have "open_actions (snd (showActionListener ''p1'' dup_page)) = [''p1'', ''p1'']"
    using h1 by (simp add: listener_found dup_page_def open_actions_def is_action_def toggled_display_def)
  ultimately show ?thesis by (simp add: dup_page_def)
qed

end
