(* ===== verification/Bubbling.thy ===== *)
theory Bubbling
  imports Event_Path Run_Properties
begin

text \<open>
  Clicks dispatched along the tree to the controller's listeners. The controller only
  registers non-capturing \<open>click\<close> listeners, so under \<open>Event_Dispatch.listeners_wf\<close>
  the capture pass does nothing, and the bubble pass is a click on the target followed by
  a click on each ancestor. The flat \<open>Event_Dispatch.click\<close> that the rest of the
  development uses is therefore the building block of real dispatch
  (\<open>dispatch_bubbling_clicks\<close>). Exclusion survives bubbling, and a trigger nested
  inside another trigger is where the two dispatch models differ visibly.
\<close>

text \<open>
  A page with a trigger \<open>b1\<close> for panel \<open>p1\<close> nested inside an element \<open>outer\<close>
  that is itself the trigger for panel \<open>p0\<close>, as the two registrations would leave it.
\<close>

definition nested_page :: doc where
  "nested_page = \<lparr>elements = [
     \<lparr>el_id = ''outer'', el_classes = [], display = [],
      el_listeners = [\<lparr>l_type = ''click'', l_callback = ShowAction 1 ''p0'', l_capture = False\<rparr>]\<rparr>,
     \<lparr>el_id = ''b1'', el_classes = [], display = [],
      el_listeners = [\<lparr>l_type = ''click'', l_callback = ShowAction 0 ''p1'', l_capture = False\<rparr>]\<rparr>,
     \<lparr>el_id = ''p0'', el_classes = [''action''], display = [], el_listeners = []\<rparr>,
     \<lparr>el_id = ''p1'', el_classes = [''action''], display = [], el_listeners = []\<rparr>],
   fn_count = 2\<rparr>"

definition nested_tree :: tree where
  "nested_tree = [None, Some 0, None, None]"

subsection \<open>Bubbling dispatch as clicks along the path\<close>

lemma fold_click_run_tasks:
  "fold (\<lambda>j (errs, q). let (errs', q') = click j q in (errs @ errs', q')) xs (errs0, p) =
     (errs0 @ fst (run_tasks p (map Click xs)), snd (run_tasks p (map Click xs)))"
  by (induction xs arbitrary: errs0 p) (simp_all add: case_prod_unfold Let_def)

lemma listeners_wf_no_capture:
  assumes "listeners_wf p" and "j < length (elements p)"
  shows "filter (\<lambda>l. l_capture l = True) (el_listeners (elements p ! j)) = []"
    and "filter (\<lambda>l. l_capture l = False) (el_listeners (elements p ! j)) = el_listeners (elements p ! j)"
  using assms listeners_at_subset_all [OF assms(2)]
  by (auto simp: listeners_wf_def filter_empty_conv intro!: filter_True)

lemma capture_pass_noop:
  assumes "listeners_wf p" and "set xs \<subseteq> {..<length (elements p)}"
  shows "fold (\<lambda>j (errs, q). let (errs', q') = invoke_listeners call t
      (filter (\<lambda>l. l_capture l = True) (el_listeners (elements q ! j))) q in (errs @ errs', q')) xs (errs0, p) =
    (errs0, p)"
  using assms(2)
proof (induction xs)
  case Nil
  then show ?case by simp
next
  case (Cons j xs)
  then show ?case
    using listeners_wf_no_capture (1) [OF assms(1)] by simp
qed

lemma bubble_pass_clicks:
  assumes "listeners_wf p" and "set xs \<subseteq> {..<length (elements p)}"
  shows "fold (\<lambda>j (errs, q). let (errs', q') = invoke_listeners call_closure ''click''
      (filter (\<lambda>l. l_capture l = False) (el_listeners (elements q ! j))) q in (errs @ errs', q')) xs (errs0, p) =
    fold (\<lambda>j (errs, q). let (errs', q') = click j q in (errs @ errs', q')) xs (errs0, p)"
  using assms
proof (induction xs arbitrary: errs0 p)
  case Nil
  then show ?case by simp
next
  case (Cons j xs)
  let ?q = "snd (click j p)"
  have j: "j < length (elements p)" using Cons.prems(2) by simp
  have inv: "invoke_listeners call_closure ''click'' (filter (\<lambda>l. l_capture l = False) (el_listeners (elements p ! j))) p =
      click j p"
    using j listeners_wf_no_capture (2) [OF Cons.prems(1) j] by (simp add: click_def dispatch_event_def)
  have wf: "listeners_wf ?q"
    using Cons.prems(1) listeners_wf_display_only [OF click_display_only] by simp
  have "length (elements ?q) = length (elements p)"
    by (rule length_shape [OF display_only_shape [OF click_display_only]])
  with Cons.prems(2) have "set xs \<subseteq> {..<length (elements ?q)}" by simp
  from Cons.IH [OF wf this] inv show ?case
    by (simp add: case_prod_unfold Let_def)
qed

lemma dispatch_bubbling_clicks:
  assumes "listeners_wf p" and "tree_wf par p" and "k < length (elements p)"
    and "event_path par k = Some path"
  shows "dispatch_bubbling call_closure ''click'' par k p = Some (run_tasks p (map Click path))"
proof -
  have "set path \<subseteq> {..<length (elements p)}"
    using event_path_in_tree [OF assms(2-4)] by simp
  then have "set (rev path) \<subseteq> {..<length (elements p)}" by simp
  note cap = capture_pass_noop [OF assms(1) this, of call_closure "''click''" "[]"]
  show ?thesis
    using assms(3,4) cap bubble_pass_clicks [OF assms(1) \<open>set path \<subseteq> _\<close>, of "[]"]
      fold_click_run_tasks [of path "[]" p]
    by (simp add: dispatch_bubbling_def Let_def)
qed

lemma invoke_listeners_no_match:
  "filter (\<lambda>l. l_type l = t) ls = [] \<Longrightarrow> invoke_listeners call t ls p = ([], p)"
  by (induction ls) (auto split: if_splits)

lemma clicks_without_listeners:
  assumes "\<forall>m \<in> set ms. m < length (elements q) \<and> click_targets (el_listeners (elements q ! m)) = []"
  shows "run_tasks q (map Click ms) = ([], q)"
  using assms
proof (induction ms)
  case Nil
  then show ?case by simp
next
  case (Cons m ms)
  then have "click m q = ([], q)"
    by (simp add: click_def dispatch_event_def click_targets_def invoke_listeners_no_match)
  with Cons show ?case by simp
qed

lemma trigger_display_only:
  assumes "display_only p q" and "j < length (elements p)"
    and "click_targets (el_listeners (elements p ! j)) = [a]"
    and "getElementById a p = Some i" and "is_action (elements p ! i)"
  shows "j < length (elements q) \<and> click_targets (el_listeners (elements q ! j)) = [a] \<and>
    getElementById a q = Some i \<and> is_action (elements q ! i)"
proof -
  have s: "dom_shape q = dom_shape p"
    by (rule display_only_shape [OF assms(1)])
  have l: "el_listeners (elements q ! j) = el_listeners (elements p ! j)"
    using display_only_listeners [OF assms(1)] assms(2) length_shape [OF s]
    by (metis nth_map)
  have i: "i < length (elements p)"
    using assms(4) by (simp add: getElementById_SomeD)
  show ?thesis
    using assms(2-5) l length_shape [OF s] getElementById_shape [OF s] shape_nth(2) [OF s [symmetric] i]
    by (simp add: is_action_def)
qed

lemma dispatch_bubbling_returns:
  "event_path par k = Some path \<Longrightarrow> \<exists>r. dispatch_bubbling call t par k p = Some r"
  by (simp add: dispatch_bubbling_def Let_def)

text \<open>
  C25. A click dispatched along a well-formed tree to the controller's listeners always
  returns (the event path exists and every pass is a finite loop), and it keeps mutual
  exclusion: when the panels have distinct ids and at most one is open, so it is after
  the click, however many listeners on the path run.
\<close>

theorem bubbling_click_returns_exclusive:
  assumes "tree_wf par p" and "exclusive p"
  shows "\<exists>r. dispatch_bubbling call_closure ''click'' par k p = Some r \<and> exclusive (snd r)"
proof -
  obtain path where "event_path par k = Some path"
    using event_path_terminates_wf [OF assms(1)] by blast
  then obtain r where r: "dispatch_bubbling call_closure ''click'' par k p = Some r"
    using dispatch_bubbling_returns by blast
  have "\<And>cb q. exclusive q \<Longrightarrow> exclusive (snd (call_closure cb q))"
    by (rule call_closure_exclusive) (simp add: exclusive_def)
  from dispatch_bubbling_preserves [where P = exclusive, OF this assms(2) r] r show ?thesis
    by blast
qed

theorem bubbling_click_returns_exclusive_witness:
  "tree_wf nested_tree nested_page \<and> exclusive nested_page \<and>
   (\<exists>r. dispatch_bubbling call_closure ''click'' nested_tree 1 nested_page = Some r \<and> exclusive (snd r))"
proof -
  have h1: "tree_wf nested_tree nested_page"
    by (simp add: tree_wf_def nested_tree_def nested_page_def less_Suc_eq)
  have h2: "exclusive nested_page"
    by (simp add: exclusive_def nested_page_def action_ids_distinct_def is_action_def open_actions_def)
  from h1 h2 bubbling_click_returns_exclusive [OF h1 h2] show ?thesis by blast
qed

text \<open>
  C26. Nested triggers: when the trigger \<open>k\<close> of panel \<open>a1\<close> sits inside an element
  \<open>j\<close> (its parent) that is the trigger of another panel \<open>a0\<close>, and no element further
  up has click listeners, a click on \<open>k\<close> bubbles to \<open>j\<close>. Whatever was open before,
  it ends with \<open>a0\<close>, the outer trigger's panel, as the only open panel, and not with
  \<open>a1\<close>.
\<close>

theorem nested_trigger_opens_outer:
  assumes "action_ids_distinct p" and "listeners_wf p" and "tree_wf par p" and "k < length (elements p)"
    and "event_path par k = Some (k # j # rest)"
    and "click_targets (el_listeners (elements p ! k)) = [a1]"
    and "getElementById a1 p = Some i1" and "is_action (elements p ! i1)"
    and "click_targets (el_listeners (elements p ! j)) = [a0]"
    and "getElementById a0 p = Some i0" and "is_action (elements p ! i0)"
    and "a0 \<noteq> a1"
    and "\<forall>m \<in> set rest. click_targets (el_listeners (elements p ! m)) = []"
  shows "\<exists>r. dispatch_bubbling call_closure ''click'' par k p = Some r \<and> open_actions (snd r) = [a0]"
proof -
  let ?q1 = "snd (click k p)"
  let ?q2 = "snd (click j ?q1)"
  have range: "set (k # j # rest) \<subseteq> {..<length (elements p)}"
    using event_path_in_tree [OF assms(3,4,5)] by simp
  note s1 = trigger_click_step [OF assms(1,4,6,7,8)]
  have o1: "set (open_actions ?q1) \<subseteq> {a1}"
    using s1(1) by (simp add: abs_click_def)
  have t1: "j < length (elements ?q1) \<and> click_targets (el_listeners (elements ?q1 ! j)) = [a0] \<and>
      getElementById a0 ?q1 = Some i0 \<and> is_action (elements ?q1 ! i0)"
    using range assms(9-11) by (intro trigger_display_only [OF click_display_only]) simp_all
  note s2 = trigger_click_step [OF s1(2)] t1
  have o2: "open_actions ?q2 = [a0]"
    using s2 o1 assms(12) by (auto simp: abs_click_def)
  have dq2: "display_only p ?q2"
    using click_display_only display_only_trans by blast
  have "el_listeners (elements ?q2 ! m) = el_listeners (elements p ! m)" if "m < length (elements p)" for m
    using display_only_listeners [OF dq2] that length_shape [OF display_only_shape [OF dq2]] by (metis nth_map)
  then have "\<forall>m \<in> set rest. m < length (elements ?q2) \<and> click_targets (el_listeners (elements ?q2 ! m)) = []"
    using range assms(13) length_shape [OF display_only_shape [OF dq2]] by auto
  then have rest: "run_tasks ?q2 (map Click rest) = ([], ?q2)"
    by (rule clicks_without_listeners)
  have "dispatch_bubbling call_closure ''click'' par k p = Some (run_tasks p (map Click (k # j # rest)))"
    by (rule dispatch_bubbling_clicks [OF assms(2-5)])
  moreover have "snd (run_tasks p (map Click (k # j # rest))) = ?q2"
    using rest by (simp add: case_prod_unfold Let_def)
  ultimately show ?thesis
    using o2 by auto
qed

theorem nested_trigger_opens_outer_witness:
  "\<exists>r. dispatch_bubbling call_closure ''click'' nested_tree 1 nested_page = Some r \<and>
     open_actions (snd r) = [''p0'']"
proof -
  have h1: "action_ids_distinct nested_page" by (simp add: nested_page_def action_ids_distinct_def is_action_def)
  have h2: "listeners_wf nested_page"
    by (simp add: listeners_wf_def nested_page_def all_listeners_def)
  have h3: "tree_wf nested_tree nested_page"
    by (simp add: tree_wf_def nested_tree_def nested_page_def less_Suc_eq)
  have h4: "1 < length (elements nested_page)" by (simp add: nested_page_def)
  have h5: "event_path nested_tree 1 = Some [1, 0]"
    by (simp add: nested_tree_def event_path.simps)
  have h6: "click_targets (el_listeners (elements nested_page ! 1)) = [''p1'']"
    by (simp add: nested_page_def click_targets_def)
  have h7: "getElementById ''p1'' nested_page = Some 3" by (simp add: nested_page_def getElementById_def)
  have h8: "is_action (elements nested_page ! 3)" by (simp add: nested_page_def is_action_def)
  have h9: "click_targets (el_listeners (elements nested_page ! 0)) = [''p0'']"
    by (simp add: nested_page_def click_targets_def)
  have h10: "getElementById ''p0'' nested_page = Some 2" by (simp add: nested_page_def getElementById_def)
  have h11: "is_action (elements nested_page ! 2)" by (simp add: nested_page_def is_action_def)
  have h12: "''p0'' \<noteq> ''p1''" by simp
  have h13: "\<forall>m \<in> set []. click_targets (el_listeners (elements nested_page ! m)) = []" by simp
  from nested_trigger_opens_outer [OF h1 h2 h3 h4 h5 h6 h7 h8 h9 h10 h11 h12 h13] show ?thesis .
qed

end
