(* ===== verification/JS_Array.thy ===== *)
theory JS_Array
  imports Prelude "HOL-Library.While_Combinator"
begin

text \<open>
  The ECMAScript built-ins of lines 2--4 of \<open>hideandshowactions.js\<close>:
  \<open>Array.from\<close>, \<open>Array.prototype.filter\<close> and \<open>Array.prototype.forEach\<close>. They are
  host code, modelled from the algorithms of the ECMAScript specification: each reads
  the length once and then runs a counter \<open>k\<close> from \<open>0\<close> while \<open>k < len\<close>, doing one
  step per index. \<open>index_loop\<close> is that loop, written with \<open>while_option\<close> so that a
  loop that did not end would be the value \<open>None\<close>. The arrays the controller builds
  are dense (made by \<open>Array.from\<close> and \<open>filter\<close>), so the specification's
  \<open>HasProperty\<close> test for holes always succeeds and is left out. The lemmas show that
  the loop always ends and that each built-in computes the list function HOL has for
  it, which is how the controller theory models them.
\<close>

definition index_loop :: "nat \<Rightarrow> (nat \<Rightarrow> 's \<Rightarrow> 's) \<Rightarrow> 's \<Rightarrow> (nat \<times> 's) option" where
  "index_loop len step s = while_option (\<lambda>(k, s). k < len) (\<lambda>(k, s). (Suc k, step k s)) (0, s)"

definition array_from :: "'a list \<Rightarrow> 'a list option" where
  "array_from items = map_option snd (index_loop (length items) (\<lambda>k A. A @ [items ! k]) [])"

definition array_filter :: "('a \<Rightarrow> bool) \<Rightarrow> 'a list \<Rightarrow> 'a list option" where
  "array_filter callbackfn O' =
     map_option snd (index_loop (length O')
       (\<lambda>k A. let kValue = O' ! k in if callbackfn kValue then A @ [kValue] else A) [])"

definition array_forEach :: "('a \<Rightarrow> 's \<Rightarrow> 's) \<Rightarrow> 'a list \<Rightarrow> 's \<Rightarrow> 's option" where
  "array_forEach callbackfn O' s = map_option snd (index_loop (length O') (\<lambda>k. callbackfn (O' ! k)) s)"

subsection \<open>The loop\<close>

lemma while_index_from:
  "k \<le> n \<Longrightarrow> while_option (\<lambda>(k, s). k < n) (\<lambda>(k, s). (Suc k, step k s)) (k, s) =
     Some (n, fold step [k..<n] s)"
proof (induction "n - k" arbitrary: k s)
  case 0
  then have "k = n" by simp
  then show ?case by (subst while_option_unfold) simp
next
  case (Suc m)
  then have k: "k < n" and m: "m = n - Suc k" by simp_all
  have "while_option (\<lambda>(k, s). k < n) (\<lambda>(k, s). (Suc k, step k s)) (k, s) =
      while_option (\<lambda>(k, s). k < n) (\<lambda>(k, s). (Suc k, step k s)) (Suc k, step k s)"
    using k by (simp add: while_option_unfold [of _ _ "(k, s)"])
  also have "\<dots> = Some (n, fold step [Suc k..<n] (step k s))"
    using Suc.hyps(1) [OF m] k by simp
  also have "\<dots> = Some (n, fold step [k..<n] s)"
    using k by (simp add: upt_conv_Cons)
  finally show ?case .
qed

lemma index_loop_fold: "index_loop n step s = Some (n, fold step [0..<n] s)"
  unfolding index_loop_def by (rule while_index_from) simp

lemma fold_upt_append_map: "fold (\<lambda>k A. A @ [f (xs ! k)]) [0..<length xs] A = A @ map f xs"
proof (induction xs rule: rev_induct)
  case Nil
  then show ?case by simp
next
  case (snoc x xs)
  have "fold (\<lambda>k A. A @ [f ((xs @ [x]) ! k)]) [0..<length xs] A =
      fold (\<lambda>k A. A @ [f (xs ! k)]) [0..<length xs] A"
    by (rule fold_cong) (simp_all add: nth_append)
  with snoc show ?case by simp
qed

lemma fold_upt_append_filter:
  "fold (\<lambda>k A. if P (xs ! k) then A @ [xs ! k] else A) [0..<length xs] A = A @ filter P xs"
proof (induction xs rule: rev_induct)
  case Nil
  then show ?case by simp
next
  case (snoc x xs)
  have "fold (\<lambda>k A. if P ((xs @ [x]) ! k) then A @ [(xs @ [x]) ! k] else A) [0..<length xs] A =
      fold (\<lambda>k A. if P (xs ! k) then A @ [xs ! k] else A) [0..<length xs] A"
    by (rule fold_cong) (simp_all add: nth_append fun_eq_iff)
  with snoc show ?case by simp
qed

lemma fold_upt_nth: "fold (\<lambda>k. f (xs ! k)) [0..<length xs] s = fold f xs s"
proof (induction xs arbitrary: s rule: rev_induct)
  case Nil
  then show ?case by simp
next
  case (snoc x xs)
  have "fold (\<lambda>k. f ((xs @ [x]) ! k)) [0..<length xs] s = fold (\<lambda>k. f (xs ! k)) [0..<length xs] s"
    by (rule fold_cong) (simp_all add: nth_append)
  with snoc show ?case by simp
qed

subsection \<open>Termination and the list functions computed\<close>

lemma index_loop_terminates: "\<exists>r. index_loop len step s = Some r"
  unfolding index_loop_def
  by (rule measure_while_option_Some [where P = "\<lambda>_. True" and f = "\<lambda>(k, s). len - k"]) auto

lemma array_from_returns: "array_from xs \<noteq> None"
  unfolding array_from_def using index_loop_terminates [of "length xs" "\<lambda>k A. A @ [xs ! k]" "[]"] by auto

lemma array_filter_returns: "array_filter P xs \<noteq> None"
  unfolding array_filter_def
  using index_loop_terminates [of "length xs" "\<lambda>k A. let kValue = xs ! k in if P kValue then A @ [kValue] else A" "[]"]
  by auto

lemma array_forEach_returns: "array_forEach f xs s \<noteq> None"
  unfolding array_forEach_def using index_loop_terminates [of "length xs" "\<lambda>k. f (xs ! k)" s] by auto

lemma array_forEach_fold: "array_forEach callbackfn xs s = Some (fold callbackfn xs s)"
  by (simp add: array_forEach_def index_loop_fold fold_upt_nth)

lemma array_filter_filter: "array_filter P xs = Some (filter P xs)"
  using fold_upt_append_filter [of P xs "[]"] by (simp add: array_filter_def index_loop_fold Let_def)

lemma array_from_id: "array_from xs = Some xs"
  using fold_upt_append_map [of id xs "[]"] by (simp add: array_from_def index_loop_fold)

end
