(* ===== verification/Hide_Loop.thy ===== *)
theory Hide_Loop
  imports Actions JS_Array "HOL-Library.Monad_Syntax"
begin

text \<open>
  \<open>hideAllOtherActions\<close> statement by statement (lines 1--5 of
  \<open>hideandshowactions.js\<close>): \<open>Array.from\<close> takes a snapshot of the live collection
  \<open>document.getElementsByClassName("action")\<close>, \<open>filter\<close> runs the arrow function of
  line 3 on each element, and \<open>forEach\<close> runs the arrow function of line 4, which
  assigns \<open>none\<close> to the element's inline display. The built-ins are the loops of
  \<open>JS_Array\<close>, composed in the option monad so that a loop that did not end would
  make the whole call \<open>None\<close>. The filter callback reads the page the call started
  with: \<open>filter\<close> finishes before \<open>forEach\<close> writes anything. The theorem of this
  theory shows that this model returns, and returns the page computed by the list-level
  model \<open>Actions.hideAllOtherActions\<close> that the rest of the development uses.

  The theory also holds the click listener of lines 17--20 at this level
  (\<open>showActionListener_stmts\<close>, the two calls in order, the exception of the second
  ending the listener), and \<open>registerShowActionOnClick\<close> of lines 12--21 with its
  local \<open>element\<close> and the JavaScript error that a member access on \<open>null\<close> would
  raise (\<open>registerShowActionOnClick_stmts\<close>). Both are proved equal to the list-level
  definitions.
\<close>

definition keep_other :: "ident \<Rightarrow> 'cb page \<Rightarrow> ptr \<Rightarrow> bool" where
  "keep_other exceptId p element \<longleftrightarrow> el_id (elements p ! element) \<noteq> exceptId"

definition hide_element :: "ptr \<Rightarrow> 'cb page \<Rightarrow> 'cb page" where
  "hide_element element p = set_display element ''none'' p"

definition hideAllOtherActions_stmts :: "ident \<Rightarrow> 'cb page \<Rightarrow> 'cb page option" where
  "hideAllOtherActions_stmts exceptId p =
     do {
       actions \<leftarrow> array_from (getElementsByClassName ''action'' p);
       others \<leftarrow> array_filter (keep_other exceptId p) actions;
       array_forEach hide_element others p
     }"

definition showActionListener_stmts :: "ident \<Rightarrow> 'cb page \<Rightarrow> (js_error option \<times> 'cb page) option" where
  "showActionListener_stmts actionId p =
     do {
       p1 \<leftarrow> hideAllOtherActions_stmts actionId p;
       Some (case toggleActionVisibility actionId p1 of
               Inl e \<Rightarrow> (Some e, p1)
             | Inr p2 \<Rightarrow> (None, p2))
     }"

definition registerShowActionOnClick_stmts :: "ident \<Rightarrow> ident \<Rightarrow> doc \<Rightarrow> js_error + doc" where
  "registerShowActionOnClick_stmts buttonId actionId p =
     (let element = getElementById buttonId p
      in if element = None then Inr p
         else case element of
                None \<Rightarrow> Inl TypeError
              | Some i \<Rightarrow>
                  (let (f, p1) = new_function p
                   in Inr (addEventListener i ''click'' (ShowAction f actionId) p1)))"

text \<open>
  The statement-level \<open>hideAllOtherActions\<close>, built from the ECMAScript loops of
  \<open>Array.from\<close>, \<open>filter\<close> and \<open>forEach\<close>, always returns, and its result is the page
  of the list-level model: the fold of \<open>set_display _ none\<close> over the filtered snapshot.
\<close>

lemma hideAllOtherActions_stmts_eq:
  "hideAllOtherActions_stmts exceptId p = Some (hideAllOtherActions exceptId p)"
  by (simp add: hideAllOtherActions_stmts_def hideAllOtherActions_def keep_other_def [abs_def]
      hide_element_def [abs_def] array_from_id array_filter_filter array_forEach_fold)

text \<open>
  C22. Lines 2--3: \<open>Array.from\<close> followed by \<open>filter\<close> with the arrow function of
  line 3 returns the positions of the elements of class \<open>action\<close> whose id differs
  from \<open>exceptId\<close>, in tree order, read from the page as it was when the call started.
\<close>

theorem hideAllOtherActions_others:
  "do {
     actions \<leftarrow> array_from (getElementsByClassName ''action'' p);
     array_filter (keep_other exceptId p) actions
   } = Some (filter (\<lambda>i. is_action (elements p ! i) \<and> el_id (elements p ! i) \<noteq> exceptId)
            [0..<length (elements p)])"
proof -
  have "filter (keep_other exceptId p) (getElementsByClassName ''action'' p) =
      filter (\<lambda>i. is_action (elements p ! i) \<and> el_id (elements p ! i) \<noteq> exceptId) [0..<length (elements p)]"
    unfolding getElementsByClassName_def filter_filter
    by (rule filter_cong) (simp_all add: keep_other_def is_action_def)
  then show ?thesis
    by (simp add: array_from_id array_filter_filter)
qed

text \<open>
  The click listener at the level of statements (lines 17--20): the statement-level
  \<open>hideAllOtherActions\<close> with its ECMAScript loops, then \<open>toggleActionVisibility\<close>,
  whose exception ends the listener, returns, and returns what the list-level
  \<open>Actions.showActionListener\<close> returns, on every branch, the thrown \<open>TypeError\<close>
  included. The run-level properties proved with the list-level listener therefore hold
  for the listener as written.
\<close>

lemma showActionListener_stmts_eq:
  "showActionListener_stmts actionId p = Some (showActionListener actionId p)"
  by (simp add: showActionListener_stmts_def showActionListener_def hideAllOtherActions_stmts_def
      hideAllOtherActions_def keep_other_def [abs_def] hide_element_def [abs_def]
      array_from_id array_filter_filter array_forEach_fold Let_def)

text \<open>
  C24. \<open>registerShowActionOnClick\<close> never throws (lines 12--21). Its local
  \<open>element\<close> is \<open>null\<close> exactly when the button is missing, and then the guard
  \<open>if (!element) return\<close> returns before the only member access on it, so the
  \<open>TypeError\<close> branch of \<open>element.addEventListener\<close> is never taken. Its effect is that
  of the list-level model, which has no error branch.
\<close>

theorem registerShowActionOnClick_stmts_never_throws:
  "registerShowActionOnClick_stmts buttonId actionId p = Inr (registerShowActionOnClick buttonId actionId p)"
  by (cases "getElementById buttonId p")
     (simp_all add: registerShowActionOnClick_stmts_def registerShowActionOnClick_def new_function_def)

end
