(* ===== verification/Page_Init.thy ===== *)
theory Page_Init
  imports Run_Properties
begin

text \<open>
  The page's initialisation code. It is not in the repository. The specification
  (section 6) says only that it knows the button/action pairs and calls
  \<open>registerShowActionOnClick\<close> for them. \<open>init_page\<close> models it from that description
  as the registrations of a list of pairs, in list order. The theory shows what the
  rest of the development assumes of this code:
  \<^item> Initialisation is a run of \<open>Register\<close> tasks of the event loop, so its result is
    reachable and the run-level invariants hold from the start.
  \<^item> With pairwise different button ids and a page loaded without listeners, each
    button ends with exactly the controller's listener for its panel, and so works: its
    panel opens and closes within two clicks.
\<close>

definition init_page :: "(ident \<times> ident) list \<Rightarrow> doc \<Rightarrow> doc" where
  "init_page pairs p = fold (\<lambda>(buttonId, actionId) q. registerShowActionOnClick buttonId actionId q) pairs p"

text \<open>Two triggers and their panels, as loaded, without listeners or inline styles.\<close>

definition two_trigger_page :: doc where
  "two_trigger_page = \<lparr>elements = [
     \<lparr>el_id = ''b1'', el_classes = [], display = [], el_listeners = []\<rparr>,
     \<lparr>el_id = ''b2'', el_classes = [], display = [], el_listeners = []\<rparr>,
     \<lparr>el_id = ''p1'', el_classes = [''action''], display = [], el_listeners = []\<rparr>,
     \<lparr>el_id = ''p2'', el_classes = [''action''], display = [], el_listeners = []\<rparr>],
   fn_count = 0\<rparr>"

subsection \<open>Registrations in a row\<close>

lemma init_page_run_tasks:
  "init_page pairs p = snd (run_tasks p (map (\<lambda>(b, a). Register b a) pairs))"
  by (induction pairs arbitrary: p) (auto simp: init_page_def case_prod_unfold Let_def)

lemma register_listeners_other:
  assumes "getElementById b p \<noteq> Some k" and "k < length (elements p)"
  shows "el_listeners (elements (registerShowActionOnClick b a p) ! k) = el_listeners (elements p ! k)"
proof (cases "getElementById b p")
  case None
  then show ?thesis by (simp add: register_missing)
next
  case (Some i)
  with assms have "i \<noteq> k" by simp
  have "i < length (elements p)"
    using Some by (simp add: getElementById_SomeD)
  with Some assms(2) \<open>i \<noteq> k\<close> show ?thesis
    by (simp add: register_found addEventListener_nth)
qed

lemma register_targets_at:
  assumes "listeners_wf p" and "k < length (elements p)"
  shows "click_targets (el_listeners (elements (registerShowActionOnClick b a p) ! k)) =
    click_targets (el_listeners (elements p ! k)) @ (if getElementById b p = Some k then [a] else [])"
proof (cases "getElementById b p = Some k")
  case True
  let ?l = "\<lparr>l_type = ''click'', l_callback = ShowAction (fn_count p) a, l_capture = False\<rparr>"
  have "?l \<notin> set (all_listeners p)"
    using assms(1) by (auto simp: listeners_wf_def)
  then have "?l \<notin> set (el_listeners (elements p ! k))"
    using listeners_at_subset_all [OF assms(2)] by blast
  with True show ?thesis
    by (simp add: register_listeners_at click_targets_def)
next
  case False
  with assms(2) show ?thesis
    by (simp add: register_listeners_other)
qed

lemma init_page_targets_at:
  assumes "listeners_wf p" and "k < length (elements p)"
  shows "click_targets (el_listeners (elements (init_page pairs p) ! k)) =
      click_targets (el_listeners (elements p ! k)) @ map snd (filter (\<lambda>(b, a). getElementById b p = Some k) pairs) \<and>
    dom_shape (init_page pairs p) = dom_shape p"
  using assms
proof (induction pairs arbitrary: p)
  case Nil
  then show ?case by (simp add: init_page_def)
next
  case (Cons x pairs)
  obtain b a where x: "x = (b, a)" by fastforce
  let ?p1 = "registerShowActionOnClick b a p"
  have unf: "init_page (x # pairs) p = init_page pairs ?p1"
    by (simp add: init_page_def x)
  have s1: "dom_shape ?p1 = dom_shape p" by (rule register_shape)
  have g: "getElementById b' ?p1 = getElementById b' p" for b'
    by (rule getElementById_shape [OF s1])
  have wf1: "listeners_wf ?p1" by (rule register_listeners_wf [OF Cons.prems(1)])
  have k1: "k < length (elements ?p1)" using Cons.prems(2) length_shape [OF s1] by simp
  show ?case
    using Cons.IH [OF wf1 k1] register_targets_at [OF Cons.prems] unf x g s1 by simp
qed

subsection \<open>Initialisation makes every trigger work\<close>

text \<open>
  C15. Page initialisation composed with the controller and the event loop. Take a page
  loaded without listeners and with distinct panel ids, and initialisation code that
  registers pairs with pairwise different button ids. Then the initialised page is
  reachable from the loaded one. For every registered pair \<open>(b, a)\<close> whose button
  and panel exist, the button's click listeners are exactly the controller's listener
  for \<open>a\<close>, and clicking the button makes \<open>a\<close> the only open panel within two clicks
  and closes every panel within two clicks.
\<close>

theorem init_page_triggers_work:
  assumes "all_listeners p0 = []" and "action_ids_distinct p0" and "distinct (map fst pairs)"
    and "(b, a) \<in> set pairs" and "getElementById b p0 = Some k"
    and "getElementById a p0 = Some i" and "is_action (elements p0 ! i)"
  shows "reachable p0 (init_page pairs p0) \<and>
    click_targets (el_listeners (elements (init_page pairs p0) ! k)) = [a] \<and>
    (\<exists>n. n \<in> {1, 2} \<and> open_actions (snd (run_tasks (init_page pairs p0) (replicate n (Click k)))) = [a]) \<and>
    (\<exists>n. n \<in> {1, 2} \<and> open_actions (snd (run_tasks (init_page pairs p0) (replicate n (Click k)))) = [])"
proof -
  let ?q = "init_page pairs p0"
  have wf: "listeners_wf p0"
    using assms(1) by (simp add: listeners_wf_def)
  have k: "k < length (elements p0)"
    using assms(5) by (simp add: getElementById_SomeD)
  have none: "click_targets (el_listeners (elements p0 ! k)) = []"
    using listeners_at_subset_all [OF k] assms(1) by (simp add: click_targets_def)
  have "getElementById b' p0 = Some k \<longleftrightarrow> b' = b" for b'
    using assms(5) getElementById_SomeD [of b' p0 k] getElementById_SomeD [of b p0 k] by auto
  then have "filter (\<lambda>(b', a'). getElementById b' p0 = Some k) pairs = filter (\<lambda>(b', a'). b' = b) pairs"
    by (simp add: case_prod_unfold)
  with distinct_fst_lookup [OF assms(3,4)] init_page_targets_at [OF wf k, of pairs] none
  have t: "click_targets (el_listeners (elements ?q ! k)) = [a]" and s: "dom_shape ?q = dom_shape p0"
    by simp_all
  have d: "action_ids_distinct ?q"
    using assms(2) action_ids_distinct_shape [OF s [symmetric]] by simp
  have kq: "k < length (elements ?q)"
    using k length_shape [OF s] by simp
  have aq: "getElementById a ?q = Some i"
    using assms(6) getElementById_shape [OF s] by simp
  have "i < length (elements p0)"
    using assms(6) by (simp add: getElementById_SomeD)
  with assms(7) shape_nth(2) [OF s [symmetric]] have iq: "is_action (elements ?q ! i)"
    by (simp add: is_action_def)
  have "reachable p0 ?q"
    unfolding init_page_run_tasks by (rule run_tasks_reachable [OF reachable.init])
  with t trigger_within_two_clicks [OF d kq t aq iq] show ?thesis
    by blast
qed

theorem init_page_triggers_work_witness:
  "reachable two_trigger_page (init_page [(''b1'', ''p1''), (''b2'', ''p2'')] two_trigger_page) \<and>
   click_targets (el_listeners (elements (init_page [(''b1'', ''p1''), (''b2'', ''p2'')] two_trigger_page) ! 1)) = [''p2''] \<and>
   (\<exists>n. n \<in> {1, 2} \<and> open_actions (snd (run_tasks (init_page [(''b1'', ''p1''), (''b2'', ''p2'')] two_trigger_page)
      (replicate n (Click 1)))) = [''p2'']) \<and>
   (\<exists>n. n \<in> {1, 2} \<and> open_actions (snd (run_tasks (init_page [(''b1'', ''p1''), (''b2'', ''p2'')] two_trigger_page)
      (replicate n (Click 1)))) = [])"
proof -
  have h1: "all_listeners two_trigger_page = []"
    by (simp add: two_trigger_page_def all_listeners_def)
  have h2: "action_ids_distinct two_trigger_page"
    by (simp add: two_trigger_page_def action_ids_distinct_def is_action_def)
  have h3: "distinct (map fst [(''b1'', ''p1''), (''b2'', ''p2'')])" by simp
  have h4: "(''b2'', ''p2'') \<in> set [(''b1'', ''p1''), (''b2'', ''p2'')]" by simp
  have h5: "getElementById ''b2'' two_trigger_page = Some 1"
    by (simp add: two_trigger_page_def getElementById_def)
  have h6: "getElementById ''p2'' two_trigger_page = Some 3"
    by (simp add: two_trigger_page_def getElementById_def)
  have h7: "is_action (elements two_trigger_page ! 3)"
    by (simp add: two_trigger_page_def is_action_def)
  from init_page_triggers_work [OF h1 h2 h3 h4 h5 h6 h7] show ?thesis .
qed

end
