(* ===== verification/Spec2Isabelle.thy ===== *)
theory Spec2Isabelle
  imports Bubbling Hide_Loop Page_Init
begin

text \<open>
  \<^bold>\<open>Verification of hideandshowactions.js (mimir-cms).\<close>

  \<^bold>\<open>The program.\<close> The repository's only source file,
  \<open>src/main/resources/static/js/hideandshowactions.js\<close>, shows one "action" panel at a
  time among the elements of class \<open>action\<close>. It has three functions.
  \<^item> \<open>hideAllOtherActions(exceptId)\<close> (lines 1--5) takes a snapshot of the elements of
    class \<open>action\<close>, keeps those whose \<open>id\<close> differs from \<open>exceptId\<close>, and sets
    their inline \<open>style.display\<close> to \<open>none\<close>.
  \<^item> \<open>toggleActionVisibility(id)\<close> (lines 7--10) looks up the element with that id and
    sets its display to \<open>none\<close> if it was \<open>block\<close>, and to \<open>block\<close> otherwise. With no
    such element it reads a property of \<open>null\<close> and throws a \<open>TypeError\<close>.
  \<^item> \<open>registerShowActionOnClick(buttonId, actionId)\<close> (lines 12--21) returns at once if
    the button does not exist. Otherwise it adds to the button a new click listener
    (lines 17--20) that calls \<open>hideAllOtherActions(actionId)\<close> and then
    \<open>toggleActionVisibility(actionId)\<close>.
  These functions talk to the browser (the DOM) and to nothing else. The browser runs the
  page's initialisation code, which registers the listeners, and then runs clicks one at
  a time.

  \<^bold>\<open>The theories.\<close>
  \<^item> \<open>Prelude\<close>: the type names \<open>ident\<close> and \<open>ptr\<close>, the \<open>page_simps\<close> collection,
    and list lemmas shared by the components: the first index satisfying a predicate,
    updates at distinct positions, distinct lists with at most one value, and multisets
    of concatenated lists.
  \<^item> \<open>DOM_Model\<close>: the host, modelled from the DOM standard because it is not code of
    the repository. A page (\<open>'cb page\<close>) is the list of its elements in tree order
    plus a counter of allocated function objects. An element has an \<open>id\<close>, a class
    list, an inline \<open>display\<close> and a listener list. The operations are
    \<open>getElementsByClassName\<close>, \<open>getElementById\<close> (first match in tree order, none
    for the empty id), \<open>set_display\<close>, \<open>new_function\<close>, \<open>addEventListener\<close> (with
    the standard's de-duplication) and \<open>dispatch_event\<close> / \<open>invoke_listeners\<close>. The
    dispatch runs the click listeners in registration order; an exception is reported
    and the next listener still runs. The model is generic in the callback type \<open>'cb\<close>
    and takes the callbacks' semantics as a parameter. This is the interface between
    host and controller: \<open>dispatch_event_preserves\<close> lifts any page property that
    every callback keeps to whole dispatches.
  \<^item> \<open>Actions\<close>: the code. \<open>hideAllOtherActions\<close>, \<open>toggleActionVisibility\<close>
    (result \<open>js_error + page\<close>), \<open>showActionListener\<close> (the body of the listener,
    result \<open>js_error option \<times> page\<close>, because a JavaScript exception keeps the writes
    made before it), \<open>closure\<close> (the listener's function object: its number and the
    captured \<open>actionId\<close>), \<open>call_closure\<close> and \<open>registerShowActionOnClick\<close>. Each
    definition follows the statements of its function in order. The views
    \<open>shown_actions\<close> (display not \<open>none\<close>) and \<open>open_actions\<close> (display \<open>block\<close>,
    the value the code tests) list the ids of the action panels in each state.
  \<^item> \<open>Event_Dispatch\<close>: the page at run time. A task is a registration or a click
    (\<open>run_task\<close>, \<open>run_tasks\<close> for the event loop). \<open>page_step\<close> is the same as an
    inductive step relation, and \<open>reachable p0\<close> is the set of pages reachable from
    the loaded page \<open>p0\<close>. The invariants are proved by rule induction over it, and
    \<open>page_step_iff\<close> (by \<open>inductive_simps\<close>) ties the relation to \<open>run_task\<close>.
  \<^item> \<open>Panel_Spec\<close>: the abstract contract. The open panels form a list of at most one
    id, and \<open>abs_click a\<close> closes \<open>a\<close> if it is open and otherwise opens only
    \<open>a\<close>. This theory holds the refinement of the listener to \<open>abs_click\<close>.
  \<^item> \<open>JS_Array\<close>: the ECMAScript built-ins of lines 2--4, \<open>Array.from\<close>
    (\<open>array_from\<close>), \<open>Array.prototype.filter\<close> (\<open>array_filter\<close>) and
    \<open>Array.prototype.forEach\<close> (\<open>array_forEach\<close>). Each is the specification's loop
    over a counter \<open>k < len\<close> (\<open>index_loop\<close>, a \<open>while_option\<close>). They are proved to
    terminate and to equal \<open>map\<close>/\<open>filter\<close>/\<open>fold\<close>.
  \<^item> \<open>Hide_Loop\<close>: \<open>hideAllOtherActions\<close> statement by statement
    (\<open>hideAllOtherActions_stmts\<close>), with the arrow functions of line 3
    (\<open>keep_other\<close>) and line 4 (\<open>hide_element\<close>), composed in the option monad. It is
    proved equal to the list-level \<open>hideAllOtherActions\<close> of \<open>Actions\<close>, which the other
    theories use.
  \<^item> \<open>Run_Properties\<close>: properties of whole runs that need host and controller
    together. These are progress of a trigger, alternation of repeated clicks, where and
    what the controller writes, the count of listeners against allocated function
    objects, and a bound on reported errors.
  \<^item> \<open>Page_Init\<close>: the page's initialisation code. It is not in the repository, so it
    is modelled from the specification (section 6) as the registrations of a list of
    button/panel pairs (\<open>init_page\<close>). It is a run of \<open>Register\<close> tasks of the event
    loop.
  \<^item> \<open>Event_Path\<close>: dispatch along the document tree (host code, from the DOM
    standard). The parent of each element is a \<open>tree\<close>. \<open>event_path\<close> follows the
    parent links as a \<open>partial_function (option)\<close>. It returns on every tree where
    parents precede children (\<open>tree_wf\<close>), and it does not return on a cycle
    (\<open>event_path_cycle\<close>). \<open>dispatch_bubbling\<close> runs the capture pass from the root
    down and the bubble pass from the target up.
  \<^item> \<open>Bubbling\<close>: the controller under tree-aware dispatch. A bubbling click is the
    flat clicks along the event path. This ties \<open>Event_Path\<close> to the event loop of
    \<open>Event_Dispatch\<close> and to the claims already proved over it.

  \<^bold>\<open>What is proved\<close> (the claims C1--C26, in the order of the manifest).
  \<^item> Mutual exclusion.
    \<^item> One listener run leaves at most one action panel not hidden (C1).
    \<^item> Over every reachable page, at most one panel is \<open>block\<close> (C4).
    \<^item> A bubbling click on any well-formed tree keeps this (C25).
    \<^item> A direct call of the public \<open>toggleActionVisibility\<close> can break exclusion (C13).
  \<^item> The exact effect of the listener when its panel exists (C2). A whole click
    refines the abstract steps \<open>abs_click\<close> in registration order (C3). The
    \<open>filter\<close>/\<open>forEach\<close> pipeline of lines 1--5 equals an element-wise map (C5), and
    lines 2--3 select the other panels in tree order (C22).
  \<^item> Error paths.
    \<^item> \<open>toggleActionVisibility\<close> fails exactly for a missing or empty id (C6).
    \<^item> A listener whose panel is missing throws, but only after it has hidden every
      panel (C7).
    \<^item> Registering a missing button does nothing (C9), and registration never throws,
      because its null check comes first (C24).
    \<^item> A click reports one \<open>TypeError\<close> per listener with a missing panel, and the later
      listeners still run (C14).
    \<^item> A listener with an empty \<open>actionId\<close> always throws, and spares the panels
      without an id (C16).
  \<^item> The round trip of two toggles: the first always changes the page, and the second
    restores it exactly when the display was \<open>block\<close> or \<open>none\<close> (C8).
  \<^item> Registration and initialisation.
    \<^item> A registration appends exactly one fresh listener (C10), and listener
      well-formedness is invariant (C11).
    \<^item> Registering the same pair twice makes the button unable to change its own
      panel (C12).
    \<^item> Listeners gained equal function objects allocated (C20).
    \<^item> Initialising a page with distinct button/panel pairs makes every trigger open and
      close its panel within two clicks (C15).
  \<^item> Progress: from every reachable page, a trigger for an existing panel opens it as the
    only open panel within two clicks, and closes it within two clicks (C17). Repeated
    clicks alternate (C18).
  \<^item> Writes: on every reachable page, a display differs from its loaded value only if it
    is \<open>block\<close> or \<open>none\<close> and the element is a panel or a registered target (C19).
  \<^item> Edge cases of identifiers.
    \<^item> An \<open>actionId\<close> that names an element that is not a panel closes every panel and
      toggles that element (C21).
    \<^item> On a page where two panels share an id, the listener leaves the later one
      untouched, so both can be open (C23).
    \<^item> A trigger nested inside another trigger always ends with the outer trigger's panel
      open (C26).

  Besides the claims, the theories link the models of the same code to each other. The
  statement-level models of \<open>Hide_Loop\<close> equal the list-level ones. The event loop
  and the step relation reach the same pages. Bubbling dispatch is the flat clicks along
  the event path. The specification's section 8 scenario evaluates as described
  (\<open>spec_scenario\<close>). These are lemmas, used as lemmas, because they say nothing about
  what the code does beyond the claims.

  \<^bold>\<open>Bounds and fuel.\<close> There is no fuel to choose. The ECMAScript loops of
  \<open>Array.from\<close>, \<open>filter\<close> and \<open>forEach\<close> are \<open>while_option\<close> loops whose
  termination is proved with the measure \<open>len - k\<close> (\<open>JS_Array.index_loop_terminates\<close>).
  The list-level model writes the same loops as \<open>fold\<close> and \<open>filter\<close> over finite
  lists. Dispatch recurses on the listener list, and the event loop on the task list.
  The event path is a \<open>partial_function (option)\<close>, total on well-formed trees because
  each parent link goes to a smaller position, so again no fuel is needed.
  Element references are positions (\<open>nat\<close>), and the program does no arithmetic, so
  machine integers play no part.

  \<^bold>\<open>Assumptions and what is not modelled.\<close>
  \<^item> Elements are kept in tree order. Their parent links are a separate fixed list,
    because the controller never moves an element. Clicks are modelled flat
    (\<open>Event_Dispatch.click\<close>) and along the tree (\<open>Event_Path.dispatch_bubbling\<close>),
    and the two are proved to agree.
  \<^item> The following are not modelled, because the controller uses none of them and the
    page's own markup is fixed: \<open>stopPropagation\<close>, \<open>preventDefault\<close>, passive and
    once listeners, shadow trees, \<open>removeEventListener\<close>, and elements created or
    removed by other scripts.
  \<^item> Inline display values are strings. What the CSS cascade makes of an unset value
    is outside the program. The claims use either "not \<open>none\<close>" or "\<open>block\<close>".
  \<^item> The page's initialisation code, which decides which pairs are registered, is not
    in the repository. It is modelled from the specification as \<open>init_page\<close>. Later
    registrations interleaved with clicks are arbitrary \<open>Register\<close> tasks.
  \<^item> Page-level invariants assume distinct ids among the action panels. HTML requires
    this, and the code needs it (see the finding on C23).
  \<^item> \<open>Array.prototype.forEach\<close> skips holes (the \<open>HasProperty\<close> test). The arrays
    the controller passes are made by \<open>Array.from\<close> and \<open>filter\<close> and have none, so
    the test is left out of \<open>index_loop\<close>.

  \<^bold>\<open>What remains outside.\<close> Every line of \<open>hideandshowactions.js\<close> that is code is
  translated. The parts still outside the model are host behaviour that the code never
  calls (the event options and shadow trees above, the rest of the DOM) and the CSS
  cascade, which decides what an unset inline display looks like. Neither can be
  modelled from the repository, so the two browser components stay partly modelled and
  the stylesheet is not modelled.
\<close>

subsection \<open>The scenario of the specification\<close>

text \<open>
  Two panels \<open>p1\<close>, \<open>p2\<close> without inline style (hidden by the stylesheet), their
  triggers \<open>b1\<close>, \<open>b2\<close>, the initialisation code's two registrations, then clicks on
  \<open>b1\<close>, \<open>b2\<close> and \<open>b2\<close> again.
\<close>

definition scenario_page :: doc where
  "scenario_page = \<lparr>elements = [
     \<lparr>el_id = ''b1'', el_classes = [], display = [], el_listeners = []\<rparr>,
     \<lparr>el_id = ''b2'', el_classes = [], display = [], el_listeners = []\<rparr>,
     \<lparr>el_id = ''p1'', el_classes = [''action''], display = [], el_listeners = []\<rparr>,
     \<lparr>el_id = ''p2'', el_classes = [''action''], display = [], el_listeners = []\<rparr>],
   fn_count = 0\<rparr>"

definition scenario_tasks :: "task list" where
  "scenario_tasks = [Register ''b1'' ''p1'', Register ''b2'' ''p2'', Click 0, Click 1, Click 1]"

text \<open>
  The scenario runs without errors. After the click on \<open>b1\<close>, \<open>p1\<close> is
  \<open>block\<close> and \<open>p2\<close> is \<open>none\<close>. After the click on \<open>b2\<close>, \<open>p2\<close> is
  \<open>block\<close> and \<open>p1\<close> is \<open>none\<close>. After the second click on \<open>b2\<close>, both are
  \<open>none\<close>.
\<close>

lemma spec_scenario:
  "fst (run_tasks scenario_page scenario_tasks) = [] \<and>
   map (\<lambda>q. (display (elements q ! 2), display (elements q ! 3))) (run_trace scenario_page scenario_tasks) =
     [([], []), ([], []), (''block'', ''none''), (''none'', ''block''), (''none'', ''none'')]"
  by code_simp

end
